theory Spec2Isabelle
  imports Main "HOL-Library.Log_Nat" "HOL-Library.Word" "HOL-Library.Multiset"
begin

section \<open>Python values used by the thumbnail embedder\<close>

text \<open>
  The program is one Python file, \<^verbatim>\<open>image-gui4-multi3.py\<close>. Its worker
  \<^verbatim>\<open>process_single_file\<close> reads a JPEG, builds a thumbnail with OpenCV, stores it in
  the EXIF container with piexif and writes the result under a conflict policy; the class
  \<^verbatim>\<open>App\<close> scans a directory tree, dispatches the worker and counts the results.

  Python \<^verbatim>\<open>bytes\<close> are lists of 8-bit words, Python \<^verbatim>\<open>str\<close> is \<^typ>\<open>string\<close>
  (non-ASCII text is held in its UTF-8 encoding), and an exception is observed only through
  the text \<^verbatim>\<open>str(e)\<close> that the worker formats into its message.
\<close>

type_synonym bytes = "8 word list"

datatype exn = PyException (exc_str: string)

type_synonym result = "string \<times> string"

text \<open>
  A step of the \<^verbatim>\<open>try\<close> block either raises, returns from the function early, or
  carries on with a value.
\<close>

datatype 'a step = Raised exn | Returned result | Value 'a

subsection \<open>String operations\<close>

definition utf8 :: "nat list \<Rightarrow> string" where
  "utf8 = map char_of"

text \<open>The message prefixes of the worker, as UTF-8.\<close>

definition msg_decode_failed :: string where
  "msg_decode_failed = utf8 [229, 164, 177, 232, 180, 165, 32, 40, 230, 151, 160, 230, 179,
     149, 232, 167, 163, 231, 160, 129, 41, 58, 32]"

definition msg_encode_failed :: string where
  "msg_encode_failed = utf8 [229, 164, 177, 232, 180, 165, 32, 40, 231, 188, 150, 231, 160,
     129, 231, 188, 169, 231, 149, 165, 229, 155, 190, 229, 164, 177, 232, 180, 165, 41, 58, 32]"

definition msg_skipped_exists :: string where
  "msg_skipped_exists = utf8 [229, 183, 178, 232, 183, 179, 232, 191, 135, 32, 40, 230, 150,
     135, 228, 187, 182, 229, 183, 178, 229, 173, 152, 229, 156, 168, 41, 58, 32]"

definition msg_processed :: string where
  "msg_processed = utf8 [229, 183, 178, 229, 164, 132, 231, 144, 134, 58, 32]"

definition msg_failed :: string where
  "msg_failed = utf8 [229, 164, 177, 232, 180, 165, 58, 32]"

text \<open>\<^verbatim>\<open>str(n)\<close> for a non-negative Python integer: its decimal digits.\<close>

definition digit_char :: "nat \<Rightarrow> char" where
  "digit_char d = ''0123456789'' ! d"

function str_nat :: "nat \<Rightarrow> string" where
  "str_nat n = (if n < 10 then [digit_char n] else str_nat (n div 10) @ [digit_char (n mod 10)])"
  by pat_completeness auto
termination
  by (relation "measure id") auto

text \<open>
  \<^verbatim>\<open>str.lower\<close> on the ASCII letters (the only ones that can produce the characters of
  \<^verbatim>\<open>.jpg\<close> and \<^verbatim>\<open>.jpeg\<close>), and \<^verbatim>\<open>str.endswith\<close>.
\<close>

definition lower_char :: "char \<Rightarrow> char" where
  "lower_char c =
     (case map_of (zip ''ABCDEFGHIJKLMNOPQRSTUVWXYZ'' ''abcdefghijklmnopqrstuvwxyz'') c of
        None \<Rightarrow> c | Some d \<Rightarrow> d)"

definition py_lower :: "string \<Rightarrow> string" where
  "py_lower s = map lower_char s"

definition endswith :: "string \<Rightarrow> string \<Rightarrow> bool" where
  "endswith s suf \<longleftrightarrow> length suf \<le> length s \<and> drop (length s - length suf) s = suf"

text \<open>
  \<^verbatim>\<open>filename_format.replace("{Filename}", name)\<close>: every occurrence of the placeholder,
  scanning from the left without overlaps, is replaced by the name.
\<close>

definition placeholder :: string where
  "placeholder = ''{Filename}''"

function replace_placeholder :: "string \<Rightarrow> string \<Rightarrow> string" where
  "replace_placeholder name [] = []"
| "replace_placeholder name (c # cs) =
     (if take (length placeholder) (c # cs) = placeholder
      then name @ replace_placeholder name (drop (length placeholder) (c # cs))
      else c # replace_placeholder name cs)"
  by pat_completeness auto
termination
  by (relation "measure (\<lambda>(name, s). length s)") (auto simp: placeholder_def)

section \<open>The EXIF container\<close>

text \<open>
  \<^verbatim>\<open>piexif.load\<close> returns a dictionary whose keys \<^verbatim>\<open>"0th"\<close>, \<^verbatim>\<open>"Exif"\<close>,
  \<^verbatim>\<open>"GPS"\<close>, \<^verbatim>\<open>"1st"\<close>, ... hold tag tables (dictionaries from tag numbers to values)
  and whose key \<^verbatim>\<open>"thumbnail"\<close> holds the thumbnail bytes or \<^verbatim>\<open>None\<close>.
\<close>

datatype exif_value = ExifInt int | ExifBytes bytes | ExifSeq "exif_value list"

type_synonym ifd = "nat \<rightharpoonup> exif_value"

record exif_dict =
  ifds :: "string \<rightharpoonup> ifd"
  thumbnail :: "bytes option"

text \<open>\<^verbatim>\<open>piexif.ImageIFD.Orientation\<close>, the EXIF tag 0x0112.\<close>

definition Orientation :: nat where
  "Orientation = 274"

text \<open>The container substituted at line 34 when parsing fails.\<close>

definition empty_exif :: exif_dict where
  "empty_exif =
     \<lparr>ifds = [''0th'' \<mapsto> Map.empty, ''Exif'' \<mapsto> Map.empty, ''GPS'' \<mapsto> Map.empty,
              ''1st'' \<mapsto> Map.empty],
      thumbnail = None\<rparr>"

text \<open>Lines 50 to 53: make sure the 0th table exists and holds an Orientation tag.\<close>

definition ensure_orientation :: "exif_dict \<Rightarrow> exif_dict" where
  "ensure_orientation d =
     (let d1 = (if ifds d ''0th'' = None then d\<lparr>ifds := (ifds d)(''0th'' \<mapsto> Map.empty)\<rparr> else d)
      in case ifds d1 ''0th'' of
           None \<Rightarrow> d1
         | Some t \<Rightarrow>
             if t Orientation = None
             then d1\<lparr>ifds := (ifds d1)(''0th'' \<mapsto> t(Orientation \<mapsto> ExifInt 0))\<rparr>
             else d1)"

text \<open>Line 55: \<^verbatim>\<open>exif_dict["thumbnail"] = thumb_buf.tobytes()\<close>.\<close>

definition attach_thumbnail :: "exif_dict \<Rightarrow> bytes \<Rightarrow> exif_dict" where
  "attach_thumbnail d thumb_bytes = d\<lparr>thumbnail := Some thumb_bytes\<rparr>"

section \<open>Double-precision arithmetic of the thumbnail size\<close>

text \<open>
  Lines 40 to 43 compute in Python floats, which are IEEE 754 binary64 numbers rounded to
  nearest, ties to even. A float is represented by the rational it denotes; \<open>binary64\<close>
  rounds a rational to 53 significant bits. The exponent range is not modelled: image
  dimensions come from an OpenCV matrix and are below \<open>2 ^ 31\<close>, so that every value of
  the computation lies between \<open>2 powi (- 25)\<close> and \<open>2 ^ 40\<close>, far from underflow and
  overflow.
\<close>

definition flog2 :: "rat \<Rightarrow> int" where
  "flog2 x = (let (a, b) = quotient_of x; d = bitlen a - bitlen b
              in if 2 powi d \<le> x then d else d - 1)"

definition round_half_even :: "rat \<Rightarrow> int" where
  "round_half_even q =
     (let n = \<lfloor>q\<rfloor>; r = q - of_int n
      in if r < 1 / 2 then n else if 1 / 2 < r then n + 1
         else if even n then n else n + 1)"

definition binary64 :: "rat \<Rightarrow> rat" where
  "binary64 x =
     (if x = 0 then 0
      else let u = 2 powi (flog2 \<bar>x\<bar> - 52)
           in of_int (round_half_even (x / u)) * u)"

text \<open>
  \<^verbatim>\<open>ratio = min(target_width / original_width, target_height / original_height)\<close> and
  \<^verbatim>\<open>new_width, new_height = int(original_width * ratio), int(original_height * ratio)\<close>.
  The true division of two integers is correctly rounded, the product of an integer and a
  float is the rounded product, and \<^verbatim>\<open>int\<close> truncates. Dividing by zero raises
  \<^verbatim>\<open>ZeroDivisionError\<close>.
\<close>

definition target_width :: nat where "target_width = 160"
definition target_height :: nat where "target_height = 120"

definition thumb_ratio :: "nat \<Rightarrow> nat \<Rightarrow> rat" where
  "thumb_ratio original_width original_height =
     min (binary64 (of_nat target_width / of_nat original_width))
         (binary64 (of_nat target_height / of_nat original_height))"

definition thumb_size :: "nat \<Rightarrow> nat \<Rightarrow> exn + nat \<times> nat" where
  "thumb_size original_width original_height =
     (if original_width = 0 \<or> original_height = 0 then Inl (PyException ''division by zero'')
      else let ratio = thumb_ratio original_width original_height
           in Inr (nat \<lfloor>binary64 (of_nat original_width * ratio)\<rfloor>,
                   nat \<lfloor>binary64 (of_nat original_height * ratio)\<rfloor>))"

text \<open>
  The size as the specification words it, in exact arithmetic: the scale factor
  \<open>min (160 / width) (120 / height)\<close> and the floors of the scaled dimensions.
\<close>

definition exact_ratio :: "nat \<Rightarrow> nat \<Rightarrow> rat" where
  "exact_ratio w h = min (160 / of_nat w) (120 / of_nat h)"

definition exact_thumb_size :: "nat \<Rightarrow> nat \<Rightarrow> nat \<times> nat" where
  "exact_thumb_size w h =
     (nat \<lfloor>of_nat w * exact_ratio w h\<rfloor>, nat \<lfloor>of_nat h * exact_ratio w h\<rfloor>)"

section \<open>The file system\<close>

text \<open>
  A file system is a finite table from paths to nodes, the first entry for a path being the
  current one. The namespace is flat: a path can be written unless it names a directory,
  and \<^verbatim>\<open>os.makedirs(p, exist_ok=True)\<close> makes \<open>p\<close> a directory unless it is a file.
  The exception raised for an errno and a path is supplied by the runtime (\<open>err\<close>).
\<close>

datatype node = File bytes | Dir

type_synonym filesystem = "(string \<times> node) list"

definition fs_exists :: "filesystem \<Rightarrow> string \<Rightarrow> bool" where
  "fs_exists fs p \<longleftrightarrow> map_of fs p \<noteq> None"

definition fs_isdir :: "filesystem \<Rightarrow> string \<Rightarrow> bool" where
  "fs_isdir fs p \<longleftrightarrow> map_of fs p = Some Dir"

definition fs_read :: "(nat \<Rightarrow> string \<Rightarrow> exn) \<Rightarrow> filesystem \<Rightarrow> string \<Rightarrow> exn + bytes" where
  "fs_read err fs p =
     (case map_of fs p of
        None \<Rightarrow> Inl (err 2 p)
      | Some Dir \<Rightarrow> Inl (err 21 p)
      | Some (File b) \<Rightarrow> Inr b)"

definition fs_makedirs :: "(nat \<Rightarrow> string \<Rightarrow> exn) \<Rightarrow> filesystem \<Rightarrow> string \<Rightarrow> exn + filesystem" where
  "fs_makedirs err fs p =
     (case map_of fs p of
        None \<Rightarrow> Inr ((p, Dir) # fs)
      | Some Dir \<Rightarrow> Inr fs
      | Some (File b) \<Rightarrow> Inl (err 17 p))"

definition fs_write :: "(nat \<Rightarrow> string \<Rightarrow> exn) \<Rightarrow> filesystem \<Rightarrow> string \<Rightarrow> bytes \<Rightarrow> exn + filesystem" where
  "fs_write err fs p b =
     (case map_of fs p of
        Some Dir \<Rightarrow> Inl (err 21 p)
      | _ \<Rightarrow> Inr ((p, File b) # fs))"

section \<open>The libraries\<close>

text \<open>
  piexif, OpenCV and \<^verbatim>\<open>os.path\<close> are not part of the program; their functions are the
  fields of a record, each returning the exception it raises or its value.
  \<^verbatim>\<open>img.shape[:2]\<close> is the pair of height and width of a decoded image.
\<close>

record image =
  img_height :: nat
  img_width :: nat
  img_pixels :: bytes

record library =
  piexif_load :: "bytes \<Rightarrow> exn + exif_dict"
  piexif_dump :: "exif_dict \<Rightarrow> exn + bytes"
  piexif_insert :: "bytes \<Rightarrow> bytes \<Rightarrow> exn + bytes"
  cv2_imdecode :: "bytes \<Rightarrow> exn + image option"
  cv2_resize :: "image \<Rightarrow> nat \<times> nat \<Rightarrow> exn + image"
  cv2_imencode :: "image \<Rightarrow> exn + bool \<times> bytes"
  path_basename :: "string \<Rightarrow> string"
  path_dirname :: "string \<Rightarrow> string"
  path_splitext :: "string \<Rightarrow> string \<times> string"
  path_join :: "string \<Rightarrow> string \<Rightarrow> string"
  path_relpath :: "string \<Rightarrow> string \<Rightarrow> exn + string"
  os_walk :: "filesystem \<Rightarrow> string \<Rightarrow> (string \<times> string list \<times> string list) list"
  os_error :: "nat \<Rightarrow> string \<Rightarrow> exn"

section \<open>The worker: \<open>process_single_file\<close>\<close>

text \<open>
  A task is the tuple unpacked at line 24: the source path, the output root, the file name
  format, the conflict policy, the input root and the log flag (which the worker ignores).
\<close>

type_synonym task = "string \<times> string \<times> string \<times> string \<times> string \<times> bool"

text \<open>Lines 31 to 34: parse the EXIF data, falling back to the empty container.\<close>

definition load_exif :: "library \<Rightarrow> bytes \<Rightarrow> exif_dict" where
  "load_exif lib original_bytes =
     (case piexif_load lib original_bytes of Inl e \<Rightarrow> empty_exif | Inr d \<Rightarrow> d)"

text \<open>Lines 36 to 48: decode, compute the size, resize with area averaging, encode.\<close>

definition make_thumbnail :: "library \<Rightarrow> bytes \<Rightarrow> string \<Rightarrow> bytes step" where
  "make_thumbnail lib original_bytes filename =
     (case cv2_imdecode lib original_bytes of
        Inl e \<Rightarrow> Raised e
      | Inr None \<Rightarrow> Returned (''FAILURE'', msg_decode_failed @ filename)
      | Inr (Some img) \<Rightarrow>
          (case thumb_size (img_width img) (img_height img) of
             Inl e \<Rightarrow> Raised e
           | Inr new_size \<Rightarrow>
               (case cv2_resize lib img new_size of
                  Inl e \<Rightarrow> Raised e
                | Inr thumb \<Rightarrow>
                    (case cv2_imencode lib thumb of
                       Inl e \<Rightarrow> Raised e
                     | Inr (success, thumb_buf) \<Rightarrow>
                         if \<not> success
                         then Returned (''FAILURE'', msg_encode_failed @ filename)
                         else Value thumb_buf))))"

text \<open>Lines 50 to 56: the EXIF container that is serialised.\<close>

definition new_exif :: "library \<Rightarrow> bytes \<Rightarrow> bytes \<Rightarrow> exif_dict" where
  "new_exif lib original_bytes thumb_buf =
     attach_thumbnail (ensure_orientation (load_exif lib original_bytes)) thumb_buf"

text \<open>Lines 31 to 60: from the bytes of the source file to the bytes of the output file.\<close>

definition build_output :: "library \<Rightarrow> bytes \<Rightarrow> string \<Rightarrow> bytes step" where
  "build_output lib original_bytes filename =
     (case make_thumbnail lib original_bytes filename of
        Raised e \<Rightarrow> Raised e
      | Returned r \<Rightarrow> Returned r
      | Value thumb_buf \<Rightarrow>
          (case piexif_dump lib (new_exif lib original_bytes thumb_buf) of
             Inl e \<Rightarrow> Raised e
           | Inr exif_bytes \<Rightarrow>
               (case piexif_insert lib exif_bytes original_bytes of
                  Inl e \<Rightarrow> Raised e
                | Inr output_bytes \<Rightarrow> Value output_bytes)))"

text \<open>Lines 62 to 64: the name of the output file.\<close>

definition output_filename :: "library \<Rightarrow> string \<Rightarrow> string \<Rightarrow> string" where
  "output_filename lib filename_format filename =
     (let (name, ext) = path_splitext lib filename
      in replace_placeholder name filename_format @ ext)"

text \<open>Lines 66 to 68: the folder of the output file, mirroring the source's folder.\<close>

definition output_folder :: "library \<Rightarrow> string \<Rightarrow> string \<Rightarrow> string \<Rightarrow> exn + string" where
  "output_folder lib full_path output_root_folder root_folder =
     (case path_relpath lib (path_dirname lib full_path) root_folder of
        Inl e \<Rightarrow> Inl e
      | Inr relative_path \<Rightarrow> Inr (path_join lib output_root_folder relative_path))"

text \<open>
  Lines 76 to 83: the loop of the rename policy, started with \<open>counter = 2\<close>. It stops at
  the first name that does not exist.
\<close>

definition candidate :: "string \<Rightarrow> string \<Rightarrow> nat \<Rightarrow> string" where
  "candidate name_part ext_part counter =
     name_part @ '' ('' @ str_nat counter @ '')'' @ ext_part"

function rename_loop :: "filesystem \<Rightarrow> string \<Rightarrow> string \<Rightarrow> nat \<Rightarrow> string" where
  "rename_loop fs name_part ext_part counter =
     (let new_output_path = candidate name_part ext_part counter
      in if \<not> fs_exists fs new_output_path then new_output_path
         else rename_loop fs name_part ext_part (counter + 1))"
  by pat_completeness auto

text \<open>
  Lines 72 to 83: the conflict policy. Only \<^verbatim>\<open>"skip"\<close> and \<^verbatim>\<open>"rename"\<close> are tested,
  and only when the destination exists; in every other case the destination is kept.
\<close>

definition resolve_conflict ::
  "library \<Rightarrow> filesystem \<Rightarrow> string \<Rightarrow> string \<Rightarrow> string \<Rightarrow> string step" where
  "resolve_conflict lib fs conflict_resolution new_filename output_path =
     (if fs_exists fs output_path
      then if conflict_resolution = ''skip''
           then Returned (''SKIPPED_EXISTS'', msg_skipped_exists @ new_filename)
           else if conflict_resolution = ''rename''
           then let (name_part, ext_part) = path_splitext lib output_path
                in Value (rename_loop fs name_part ext_part 2)
           else Value output_path
      else Value output_path)"

text \<open>
  Lines 28 to 88, the body of the \<^verbatim>\<open>try\<close> statement. It yields the exception raised
  or the result returned, together with the file system it leaves.
\<close>

definition try_body ::
  "library \<Rightarrow> filesystem \<Rightarrow> task \<Rightarrow> string \<Rightarrow> (exn + result) \<times> filesystem" where
  "try_body lib fs args filename =
     (let (full_path, output_root_folder, filename_format, conflict_resolution,
           root_folder, show_log) = args
      in case fs_read (os_error lib) fs full_path of
           Inl e \<Rightarrow> (Inl e, fs)
         | Inr original_bytes \<Rightarrow>
         (case build_output lib original_bytes filename of
           Raised e \<Rightarrow> (Inl e, fs)
         | Returned r \<Rightarrow> (Inr r, fs)
         | Value output_bytes \<Rightarrow>
         (let new_filename = output_filename lib filename_format filename
          in case output_folder lib full_path output_root_folder root_folder of
           Inl e \<Rightarrow> (Inl e, fs)
         | Inr output_folder_for_this_file \<Rightarrow>
         (case fs_makedirs (os_error lib) fs output_folder_for_this_file of
           Inl e \<Rightarrow> (Inl e, fs)
         | Inr fs1 \<Rightarrow>
         (let output_path = path_join lib output_folder_for_this_file new_filename
          in case resolve_conflict lib fs1 conflict_resolution new_filename output_path of
           Raised e \<Rightarrow> (Inl e, fs1)
         | Returned r \<Rightarrow> (Inr r, fs1)
         | Value final_path \<Rightarrow>
         (case fs_write (os_error lib) fs1 final_path output_bytes of
           Inl e \<Rightarrow> (Inl e, fs1)
         | Inr fs2 \<Rightarrow>
             (Inr (''SUCCESS'',
                   msg_processed @ filename @ '' -> '' @ path_basename lib final_path),
              fs2)))))))"

text \<open>Lines 24 to 91: the worker, with the handler of line 90.\<close>

definition process_single_file :: "library \<Rightarrow> filesystem \<Rightarrow> task \<Rightarrow> result \<times> filesystem" where
  "process_single_file lib fs args =
     (let filename = path_basename lib (fst args)
      in case try_body lib fs args filename of
           (Inl e, fs') \<Rightarrow> ((''FAILURE'', msg_failed @ filename @ '' ('' @ exc_str e @ '')''), fs')
         | (Inr r, fs') \<Rightarrow> (r, fs'))"

section \<open>The scan of \<open>App.start_processing\<close>\<close>

text \<open>
  Lines 200 to 216. \<^verbatim>\<open>os.walk\<close> lists, for each folder under the input root, its
  sub-folders and its file names. A file whose name ends in \<^verbatim>\<open>.jpg\<close> or \<^verbatim>\<open>.jpeg\<close> is
  read and parsed; it becomes a task when that raises or when the parsed container has no
  thumbnail, and is counted as skipped otherwise.
\<close>

definition is_jpeg_name :: "string \<Rightarrow> bool" where
  "is_jpeg_name filename \<longleftrightarrow>
     endswith (py_lower filename) ''.jpg'' \<or> endswith (py_lower filename) ''.jpeg''"

definition scan_file ::
  "library \<Rightarrow> filesystem \<Rightarrow> string \<Rightarrow> string \<Rightarrow> string \<Rightarrow> string \<Rightarrow> bool \<Rightarrow>
   string \<Rightarrow> string \<Rightarrow> task list \<times> nat \<Rightarrow> task list \<times> nat" where
  "scan_file lib fs input_path output_path filename_format conflict_resolution show_log
     current_folder filename acc =
     (let (tasks, skipped_thumb_count) = acc
      in if is_jpeg_name filename
         then let full_path = path_join lib current_folder filename;
                  new_task = (full_path, output_path, filename_format, conflict_resolution,
                              input_path, show_log)
              in case fs_read (os_error lib) fs full_path of
                   Inl e \<Rightarrow> (tasks @ [new_task], skipped_thumb_count)
                 | Inr data \<Rightarrow>
                     (case piexif_load lib data of
                        Inl e \<Rightarrow> (tasks @ [new_task], skipped_thumb_count)
                      | Inr exif_dict \<Rightarrow>
                          if thumbnail exif_dict = None
                          then (tasks @ [new_task], skipped_thumb_count)
                          else (tasks, skipped_thumb_count + 1))
         else (tasks, skipped_thumb_count))"

definition scan ::
  "library \<Rightarrow> filesystem \<Rightarrow> string \<Rightarrow> string \<Rightarrow> string \<Rightarrow> string \<Rightarrow> bool \<Rightarrow> task list \<times> nat" where
  "scan lib fs input_path output_path filename_format conflict_resolution show_log =
     fold (\<lambda>(current_folder, dirnames, filenames) acc.
             fold (scan_file lib fs input_path output_path filename_format
                     conflict_resolution show_log current_folder) filenames acc)
          (os_walk lib fs input_path) ([], 0)"

section \<open>Collecting the results: \<open>App.process_results\<close>\<close>

record counters =
  processed_count :: nat
  skipped_exists_count :: nat
  failed_count :: nat

text \<open>
  Lines 235 to 244, the body of the loop: the counter matching the status is incremented
  (none when the status is not one of the three), and the message is put on the queue when
  logging is on or the status is \<^verbatim>\<open>"FAILURE"\<close>.
\<close>

definition count_result :: "bool \<Rightarrow> result \<Rightarrow> counters \<times> string list \<Rightarrow> counters \<times> string list" where
  "count_result show_log r acc =
     (let (status, message) = r; (c, queue) = acc;
          c' = (if status = ''SUCCESS'' then c\<lparr>processed_count := processed_count c + 1\<rparr>
                else if status = ''SKIPPED_EXISTS''
                then c\<lparr>skipped_exists_count := skipped_exists_count c + 1\<rparr>
                else if status = ''FAILURE'' then c\<lparr>failed_count := failed_count c + 1\<rparr>
                else c)
      in (c', if show_log \<or> status = ''FAILURE'' then queue @ [message] else queue))"

text \<open>
  Lines 247 to 255, the summary. The elapsed time is read from the clock; its formatted
  text \<^verbatim>\<open>f"{duration:.3f}"\<close> is an argument.
\<close>

definition summary :: "counters \<Rightarrow> nat \<Rightarrow> string \<Rightarrow> string" where
  "summary c skipped_thumb_count duration_text =
     utf8 [10, 45, 45, 45, 32, 230, 137, 128, 230, 156, 137, 230, 150, 135, 228, 187, 182, 229,
       164, 132, 231, 144, 134, 229, 174, 140, 230, 175, 149, 32, 45, 45, 45, 10, 10, 230, 128,
       187, 231, 187, 147, 58, 10, 32, 32, 45, 32, 229, 183, 178, 229, 164, 132, 231, 144, 134,
       58, 32]
     @ str_nat (processed_count c) @
     utf8 [32, 228, 184, 170, 230, 150, 135, 228, 187, 182, 10, 32, 32, 45, 32, 229, 183, 178,
       232, 183, 179, 232, 191, 135, 32, 40, 229, 183, 178, 230, 156, 137, 231, 188, 169, 231,
       149, 165, 229, 155, 190, 41, 58, 32]
     @ str_nat skipped_thumb_count @
     utf8 [32, 228, 184, 170, 230, 150, 135, 228, 187, 182, 10, 32, 32, 45, 32, 229, 183, 178,
       232, 183, 179, 232, 191, 135, 32, 40, 232, 190, 147, 229, 135, 186, 230, 150, 135, 228,
       187, 182, 229, 183, 178, 229, 173, 152, 229, 156, 168, 41, 58, 32]
     @ str_nat (skipped_exists_count c) @
     utf8 [32, 228, 184, 170, 230, 150, 135, 228, 187, 182, 10, 32, 32, 45, 32, 229, 164, 177,
       232, 180, 165, 58, 32]
     @ str_nat (failed_count c) @
     utf8 [32, 228, 184, 170, 230, 150, 135, 228, 187, 182, 10, 32, 32, 45, 32, 230, 128, 187,
       232, 128, 151, 230, 151, 182, 58, 32]
     @ duration_text @ utf8 [32, 231, 167, 146]"

text \<open>
  Lines 231 to 256: the counters after the loop and the messages put on the queue, the
  summary last.
\<close>

definition tally :: "bool \<Rightarrow> result list \<Rightarrow> counters \<times> string list" where
  "tally show_log results =
     fold (count_result show_log) results
       (\<lparr>processed_count = 0, skipped_exists_count = 0, failed_count = 0\<rparr>, [])"

definition process_results ::
  "bool \<Rightarrow> result list \<Rightarrow> nat \<Rightarrow> string \<Rightarrow> counters \<times> string list" where
  "process_results show_log results skipped_thumb_count duration_text =
     (let (c, queue) = tally show_log results
      in (c, queue @ [summary c skipped_thumb_count duration_text]))"

text \<open>
  Lines 266 to 268: the sequential dispatch. The generator calls the worker on one task
  after the other, each call starting from the file system the previous one left.
\<close>

fun run_tasks :: "library \<Rightarrow> filesystem \<Rightarrow> task list \<Rightarrow> result list \<times> filesystem" where
  "run_tasks lib fs [] = ([], fs)"
| "run_tasks lib fs (t # ts) =
     (let (r, fs1) = process_single_file lib fs t;
          (rs, fs2) = run_tasks lib fs1 ts
      in (r # rs, fs2))"

definition run_single_process ::
  "library \<Rightarrow> filesystem \<Rightarrow> bool \<Rightarrow> task list \<Rightarrow> nat \<Rightarrow> string \<Rightarrow>
   (counters \<times> string list) \<times> filesystem" where
  "run_single_process lib fs show_log tasks skipped_thumb_count duration_text =
     (let (results, fs') = run_tasks lib fs tasks
      in (process_results show_log results skipped_thumb_count duration_text, fs'))"

section \<open>The splice of the EXIF segment\<close>

text \<open>
  Modelled from the spec: \<^verbatim>\<open>piexif.insert\<close>, which line 59 calls and which is not part
  of the program. The specification has it splice the new EXIF binary into the original file
  bytes with the pixel data untouched, only the EXIF segment being rewritten. A JPEG file is
  the start-of-image marker followed by segments, each a marker, a two-byte big-endian length
  that counts itself, and a payload, up to the start-of-scan marker, from which the scan data
  runs to the end. An EXIF segment is an APP1 segment whose payload starts with
  \<^verbatim>\<open>Exif\<close> and two zero bytes. The splice puts the new EXIF segment right after the
  start-of-image marker and leaves out the EXIF segments the file had; the non-EXIF portion
  of a file is the file without its EXIF segments.
\<close>

definition SOI :: bytes where
  "SOI = [0xFF, 0xD8]"

definition exif_header :: bytes where
  "exif_header = [0x45, 0x78, 0x69, 0x66, 0, 0]"

definition segment_length :: "bytes \<Rightarrow> nat" where
  "segment_length b = 2 + (256 * unat (b ! 2) + unat (b ! 3))"

definition starts_segment :: "bytes \<Rightarrow> bool" where
  "starts_segment b \<longleftrightarrow>
     4 \<le> length b \<and> b ! 0 = 0xFF \<and> b ! 1 \<noteq> 0xDA \<and>
     4 \<le> segment_length b \<and> segment_length b \<le> length b"

function split_segments :: "bytes \<Rightarrow> bytes list \<times> bytes" where
  "split_segments b =
     (if starts_segment b
      then let (segments, rest) = split_segments (drop (segment_length b) b)
           in (take (segment_length b) b # segments, rest)
      else ([], b))"
  by pat_completeness auto
termination
  by (relation "measure length") (auto simp: starts_segment_def)

definition is_exif_segment :: "bytes \<Rightarrow> bool" where
  "is_exif_segment s \<longleftrightarrow> take 2 s = [0xFF, 0xE1] \<and> take 6 (drop 4 s) = exif_header"

definition non_exif_portion :: "bytes \<Rightarrow> bytes" where
  "non_exif_portion b =
     (if take 2 b = SOI
      then let (segments, rest) = split_segments (drop 2 b)
           in SOI @ concat (filter (\<lambda>s. \<not> is_exif_segment s) segments) @ rest
      else b)"

definition exif_segment :: "bytes \<Rightarrow> bytes" where
  "exif_segment exif =
     [0xFF, 0xE1, of_nat ((length exif + 2) div 256), of_nat ((length exif + 2) mod 256)] @ exif"

definition exif_splice :: "bytes \<Rightarrow> bytes \<Rightarrow> exn + bytes" where
  "exif_splice exif picture =
     (if take 6 exif \<noteq> exif_header then Inl (PyException ''Given data is not exif data'')
      else if take 2 picture \<noteq> SOI then Inl (PyException ''Given data is not JPEG'')
      else if 65535 < length exif + 2 then Inl (PyException ''Given data is too large'')
      else Inr (SOI @ exif_segment exif @ drop 2 (non_exif_portion picture)))"

text \<open>A segment that is exactly as long as its length field says.\<close>

definition wf_segment :: "bytes \<Rightarrow> bool" where
  "wf_segment s \<longleftrightarrow> starts_segment s \<and> segment_length s = length s"

section \<open>Notions used to state the properties\<close>

text \<open>The Orientation entry of the 0th table of a container, if there is one.\<close>

definition orientation_of :: "exif_dict \<Rightarrow> exif_value option" where
  "orientation_of d = (case ifds d ''0th'' of None \<Rightarrow> None | Some t \<Rightarrow> t Orientation)"

text \<open>A file whose EXIF data parses and holds a thumbnail.\<close>

definition has_thumbnail :: "library \<Rightarrow> filesystem \<Rightarrow> string \<Rightarrow> bool" where
  "has_thumbnail lib fs full_path =
     (case fs_read (os_error lib) fs full_path of
        Inl e \<Rightarrow> False
      | Inr data \<Rightarrow>
          (case piexif_load lib data of
             Inl e \<Rightarrow> False
           | Inr exif_dict \<Rightarrow> thumbnail exif_dict \<noteq> None))"

text \<open>The files that \<^verbatim>\<open>os.walk\<close> lists, each with its folder, in the order of the walk.\<close>

definition walk_files :: "library \<Rightarrow> filesystem \<Rightarrow> string \<Rightarrow> (string \<times> string) list" where
  "walk_files lib fs input_path =
     concat (map (\<lambda>(current_folder, dirnames, filenames).
                    map (\<lambda>filename. (current_folder, filename)) filenames)
                 (os_walk lib fs input_path))"






text \<open>The number of results with a given status.\<close>

definition count_status :: "string \<Rightarrow> result list \<Rightarrow> nat" where
  "count_status s results = length (filter (\<lambda>r. fst r = s) results)"

section \<open>A concrete library\<close>

text \<open>
  A small instance of the libraries on which the theorems below are exercised. A picture
  file holds one byte giving the length of its metadata, the metadata, and the pixel data;
  the metadata of a file is its thumbnail, a file without metadata has Orientation 6, and
  metadata that starts with a zero byte does not parse.
  Every decoded picture is 4928 by 3264. Paths are POSIX paths in normal form.
\<close>

definition sample_pixel_data :: "bytes \<Rightarrow> bytes" where
  "sample_pixel_data b = (case b of [] \<Rightarrow> [] | n # rest \<Rightarrow> drop (unat n) rest)"

definition sample_load :: "bytes \<Rightarrow> exn + exif_dict" where
  "sample_load b =
     (case b of
        [] \<Rightarrow> Inl (PyException ''unpack requires a buffer of 2 bytes'')
      | n # rest \<Rightarrow>
          if n = 0
          then Inr \<lparr>ifds = [''0th'' \<mapsto> [Orientation \<mapsto> ExifInt 6]], thumbnail = None\<rparr>
          else if take 1 rest = [0] then Inl (PyException ''Given file is neither JPEG nor TIFF.'')
          else Inr \<lparr>ifds = [''0th'' \<mapsto> Map.empty], thumbnail = Some (take (unat n) rest)\<rparr>)"

definition sample_dump :: "exif_dict \<Rightarrow> exn + bytes" where
  "sample_dump d = (case thumbnail d of None \<Rightarrow> Inr [] | Some t \<Rightarrow> Inr t)"

definition sample_insert :: "bytes \<Rightarrow> bytes \<Rightarrow> exn + bytes" where
  "sample_insert exif picture =
     (if length exif < 255
      then Inr (of_nat (length exif) # exif @ sample_pixel_data picture)
      else Inl (PyException ''Given data is too large''))"

definition sample_imdecode :: "bytes \<Rightarrow> exn + image option" where
  "sample_imdecode b =
     (if sample_pixel_data b = [] then Inr None
      else Inr (Some \<lparr>img_height = 3264, img_width = 4928, img_pixels = sample_pixel_data b\<rparr>))"

definition sample_resize :: "image \<Rightarrow> nat \<times> nat \<Rightarrow> exn + image" where
  "sample_resize img new_size =
     (if fst new_size = 0 \<or> snd new_size = 0 then Inl (PyException ''Assertion failed'')
      else Inr \<lparr>img_height = snd new_size, img_width = fst new_size,
                img_pixels = take 2 (img_pixels img)\<rparr>)"

definition sample_imencode :: "image \<Rightarrow> exn + bool \<times> bytes" where
  "sample_imencode img = Inr (True, img_pixels img)"

definition sample_basename :: "string \<Rightarrow> string" where
  "sample_basename p = rev (takeWhile (\<lambda>c. c \<noteq> CHR ''/'') (rev p))"

definition sample_dirname :: "string \<Rightarrow> string" where
  "sample_dirname p = rev (drop 1 (dropWhile (\<lambda>c. c \<noteq> CHR ''/'') (rev p)))"

definition sample_splitext :: "string \<Rightarrow> string \<times> string" where
  "sample_splitext p =
     (let ext = rev (takeWhile (\<lambda>c. c \<noteq> CHR ''.'') (rev (sample_basename p)))
      in if CHR ''.'' \<in> set (drop 1 (sample_basename p))
         then (take (length p - length ext - 1) p, drop (length p - length ext - 1) p)
         else (p, []))"

definition sample_join :: "string \<Rightarrow> string \<Rightarrow> string" where
  "sample_join a b = a @ ''/'' @ b"

definition sample_relpath :: "string \<Rightarrow> string \<Rightarrow> exn + string" where
  "sample_relpath p start =
     (if p = start then Inr ''.''
      else if take (length start + 1) p = start @ ''/'' then Inr (drop (length start + 1) p)
      else Inl (PyException ''path is on another mount''))"

definition sample_walk :: "filesystem \<Rightarrow> string \<Rightarrow> (string \<times> string list \<times> string list) list" where
  "sample_walk fs start =
     [(start, [], map (\<lambda>(p, n). sample_basename p)
                    (filter (\<lambda>(p, n). n \<noteq> Dir \<and> sample_dirname p = start) fs))]"

definition sample_os_error :: "nat \<Rightarrow> string \<Rightarrow> exn" where
  "sample_os_error n p = PyException (''[Errno '' @ str_nat n @ ''] '' @ p)"

definition sample_lib :: library where
  "sample_lib =
     \<lparr>piexif_load = sample_load, piexif_dump = sample_dump, piexif_insert = sample_insert,
      cv2_imdecode = sample_imdecode, cv2_resize = sample_resize,
      cv2_imencode = sample_imencode, path_basename = sample_basename,
      path_dirname = sample_dirname, path_splitext = sample_splitext,
      path_join = sample_join, path_relpath = sample_relpath, os_walk = sample_walk,
      os_error = sample_os_error\<rparr>"

text \<open>
  A file system with one picture, and the task that sends \<^verbatim>\<open>/in/a.jpg\<close> to
  \<^verbatim>\<open>/out\<close> under a policy.
\<close>

definition sample_fs :: filesystem where
  "sample_fs = [(''/in'', Dir), (''/out'', Dir), (''/in/a.jpg'', File [0, 10, 20, 30])]"

definition sample_task :: "string \<Rightarrow> task" where
  "sample_task policy = (''/in/a.jpg'', ''/out'', ''{Filename}-thumb'', policy, ''/in'', False)"

text \<open>
  A folder with pictures: one without metadata, one with a thumbnail, one whose metadata
  does not parse, and two files that are not named as JPEG pictures.
\<close>

definition sample_tree :: filesystem where
  "sample_tree =
     [(''/in'', Dir), (''/in/a.jpg'', File [0, 10, 20, 30]), (''/in/b.JPG'', File [1, 5, 10, 20]),
      (''/in/c.txt'', File [0, 1]), (''/in/d.jpeg'', File [1, 0, 10, 20]),
      (''/in/e.jpg.bak'', File [0, 10])]"

text \<open>
  The same library on JPEG files: the splice is the modelled one, the serialised container
  is the EXIF header followed by the thumbnail, the parser finds no tags, and every file that
  starts with the start-of-image marker decodes. The file has an EXIF segment, a
  quantisation table and scan data.
\<close>

definition jpeg_lib :: library where
  "jpeg_lib = sample_lib
     \<lparr>piexif_load := (\<lambda>b. Inr \<lparr>ifds = [''0th'' \<mapsto> Map.empty], thumbnail = None\<rparr>),
      piexif_dump := (\<lambda>d. Inr (exif_header @ (case thumbnail d of None \<Rightarrow> [] | Some t \<Rightarrow> t))),
      piexif_insert := exif_splice,
      cv2_imdecode := (\<lambda>b. if take 2 b = SOI
                          then Inr (Some \<lparr>img_height = 3264, img_width = 4928,
                                           img_pixels = drop 2 b\<rparr>)
                          else Inr None)\<rparr>"

definition jpeg_file :: bytes where
  "jpeg_file = [0xFF, 0xD8, 0xFF, 0xE1, 0, 8, 0x45, 0x78, 0x69, 0x66, 0, 0,
                0xFF, 0xDB, 0, 3, 7, 0xFF, 0xDA, 1, 2, 3]"

definition jpeg_fs :: filesystem where
  "jpeg_fs = [(''/in'', Dir), (''/out'', Dir), (''/in/a.jpg'', File jpeg_file)]"

section \<open>Termination of the rename loop\<close>

declare str_nat.simps [simp del]

lemma digit_char_inj:
  assumes "a < 10" and "b < 10" and "digit_char a = digit_char b"
  shows "a = b"
proof -
  have "distinct ''0123456789''" and "length ''0123456789'' = 10"
    by simp_all
  with assms show ?thesis
    unfolding digit_char_def by (metis nth_eq_iff_index_eq)
qed

lemma str_nat_nonempty: "str_nat n \<noteq> []"
  by (subst str_nat.simps) simp

lemma str_nat_last: "last (str_nat n) = digit_char (n mod 10)"
  by (subst str_nat.simps) simp

lemma str_nat_butlast: "butlast (str_nat n) = (if n < 10 then [] else str_nat (n div 10))"
  by (subst str_nat.simps) simp

lemma str_nat_inj: "str_nat n = str_nat m \<Longrightarrow> n = m"
proof (induction n arbitrary: m rule: str_nat.induct)
  case (1 n)
  have "digit_char (n mod 10) = digit_char (m mod 10)"
    using "1.prems" str_nat_last by metis
  then have units: "n mod 10 = m mod 10"
    by (intro digit_char_inj) auto
  have front: "butlast (str_nat n) = butlast (str_nat m)"
    using "1.prems" by simp
  show ?case
  proof (cases "n < 10")
    case True
    then have "m < 10"
      using front str_nat_nonempty [of "m div 10"]
      by (auto simp: str_nat_butlast split: if_splits)
    with True units show ?thesis by simp
  next
    case False
    then have "\<not> m < 10"
      using front str_nat_nonempty [of "n div 10"]
      by (auto simp: str_nat_butlast split: if_splits)
    with False front have "str_nat (n div 10) = str_nat (m div 10)"
      by (simp add: str_nat_butlast)
    with "1.IH" False have "n div 10 = m div 10" by blast
    with units show ?thesis by (metis div_mult_mod_eq)
  qed
qed

lemma candidate_inj: "candidate np ep a = candidate np ep b \<Longrightarrow> a = b"
  by (auto simp: candidate_def dest: str_nat_inj)

lemma finite_candidates: "finite {k. fs_exists fs (candidate np ep k)}"
proof -
  have "{k. fs_exists fs (candidate np ep k)} \<subseteq> candidate np ep -` (fst ` set fs)"
    by (force simp: fs_exists_def dest!: map_of_SomeD)
  moreover have "finite (candidate np ep -` (fst ` set fs))"
    by (intro finite_vimageI) (auto simp: inj_on_def dest: candidate_inj)
  ultimately show ?thesis by (rule finite_subset)
qed

text \<open>
  Finitely many counters name an existing path, and each turn of the loop leaves one of
  them behind.
\<close>

termination rename_loop
proof (relation "measure (\<lambda>(fs, np, ep, c). card {k. c \<le> k \<and> fs_exists fs (candidate np ep k)})",
    goal_cases)
  case 1
  show ?case by simp
next
  case (2 fs np ep c x)
  let ?A = "{k. c \<le> k \<and> fs_exists fs (candidate np ep k)}"
  let ?B = "{k. c + 1 \<le> k \<and> fs_exists fs (candidate np ep k)}"
  have fin: "finite ?A"
    using finite_candidates [of fs np ep] by (rule rev_finite_subset) auto
  have "c \<in> ?A" using 2 by simp
  moreover have "c \<notin> ?B" by simp
  moreover have "?B \<subseteq> ?A" by auto
  ultimately have "?B \<subset> ?A" by blast
  with fin have "card ?B < card ?A" by (rule psubset_card_mono)
  then show ?case by simp
qed

declare rename_loop.simps [simp del]


section \<open>Rounding error of the thumbnail size\<close>

lemma bitlen_ge_one: "0 < a \<Longrightarrow> 1 \<le> bitlen a"
  using bitlen_eq_zero_iff [of a] bitlen_nonneg [of a] by linarith

lemma bitlen_bounds_rat:
  assumes "0 < a"
  shows "(2::rat) powi (bitlen a - 1) \<le> of_int a" and "of_int a < (2::rat) powi bitlen a"
proof -
  have l: "1 \<le> bitlen a" using assms by (rule bitlen_ge_one)
  from bitlen_bounds [OF assms]
  have "2 ^ nat (bitlen a - 1) \<le> a" and "a < 2 ^ nat (bitlen a)" by simp_all
  then have "(of_int (2 ^ nat (bitlen a - 1)) :: rat) \<le> of_int a"
    and "(of_int a :: rat) < of_int (2 ^ nat (bitlen a))"
    by (simp_all only: of_int_le_iff of_int_less_iff)
  then show "(2::rat) powi (bitlen a - 1) \<le> of_int a" and "of_int a < (2::rat) powi bitlen a"
    using l by (simp_all add: power_int_nonneg_exp)
qed

lemma flog2_bounds:
  assumes "0 < x"
  shows "2 powi flog2 x \<le> x" and "x < 2 powi (flog2 x + 1)"
proof -
  obtain a b where q: "quotient_of x = (a, b)" by (cases "quotient_of x")
  have b: "0 < b" using q by (rule quotient_of_denom_pos)
  have x: "x = of_int a / of_int b" using q by (rule quotient_of_div)
  have a: "0 < a" using assms b x by (simp add: zero_less_divide_iff)
  define d where "d = bitlen a - bitlen b"
  have xb: "x * of_int b = of_int a" using b x by simp
  have "2 powi (bitlen a - 1) \<le> x * of_int b"
    using bitlen_bounds_rat(1) [OF a] xb by simp
  also have "x * of_int b < x * 2 powi bitlen b"
    using bitlen_bounds_rat(2) [OF b] assms by (simp add: mult_strict_left_mono)
  finally have "2 powi (bitlen a - 1) / 2 powi bitlen b < x"
    by (simp add: pos_divide_less_eq)
  then have lower: "2 powi (d - 1) < x"
    by (simp add: d_def power_int_diff)
  have "x * 2 powi (bitlen b - 1) \<le> x * of_int b"
    using bitlen_bounds_rat(1) [OF b] assms by (simp add: mult_left_mono)
  also have "x * of_int b < 2 powi bitlen a"
    using bitlen_bounds_rat(2) [OF a] xb by simp
  finally have "x < 2 powi bitlen a / 2 powi (bitlen b - 1)"
    by (simp add: pos_less_divide_eq)
  moreover have "(2::rat) powi (d + 1) = 2 powi bitlen a / 2 powi (bitlen b - 1)"
    by (simp add: d_def power_int_diff power_int_add)
  ultimately have upper: "x < 2 powi (d + 1)"
    by simp
  have f: "flog2 x = (if 2 powi d \<le> x then d else d - 1)"
    by (simp add: flog2_def q d_def Let_def)
  show "2 powi flog2 x \<le> x" using f lower by (auto simp: not_le)
  show "x < 2 powi (flog2 x + 1)" using f upper by (auto simp: not_le)
qed

lemma flog2_unique:
  assumes "0 < x" and "2 powi e \<le> x" and "x < 2 powi (e + 1)"
  shows "flog2 x = e"
proof -
  have "(2::rat) powi e < 2 powi (flog2 x + 1)"
    using assms(2) flog2_bounds(2) [OF assms(1)] by (rule le_less_trans)
  then have "e < flog2 x + 1"
    by (metis not_le power_int_increasing one_le_numeral)
  moreover have "(2::rat) powi flog2 x < 2 powi (e + 1)"
    using flog2_bounds(1) [OF assms(1)] assms(3) by (rule le_less_trans)
  then have "flog2 x < e + 1"
    by (metis not_le power_int_increasing one_le_numeral)
  ultimately show ?thesis by simp
qed

lemma round_half_even_error: "\<bar>of_int (round_half_even q) - q\<bar> \<le> 1 / 2"
proof -
  have "of_int \<lfloor>q\<rfloor> \<le> q" and "q < of_int \<lfloor>q\<rfloor> + 1" by linarith+
  then show ?thesis
    by (auto simp: round_half_even_def Let_def abs_le_iff)
qed

lemma binary64_eval:
  assumes "0 < x" and "2 powi e \<le> x" and "x < 2 powi (e + 1)"
  shows "binary64 x = of_int (round_half_even (x / 2 powi (e - 52))) * 2 powi (e - 52)"
  using assms flog2_unique [OF assms] by (simp add: binary64_def Let_def)

lemma binary64_error:
  assumes "0 < x"
  shows "\<bar>binary64 x - x\<bar> \<le> x / 2 ^ 53"
proof -
  define e where "e = flog2 x"
  define u :: rat where "u = 2 powi (e - 52)"
  have u: "0 < u" by (simp add: u_def)
  have b: "binary64 x = of_int (round_half_even (x / u)) * u"
    using assms by (simp add: binary64_def Let_def u_def e_def)
  have "\<bar>of_int (round_half_even (x / u)) - x / u\<bar> * u \<le> 1 / 2 * u"
    using round_half_even_error u by (intro mult_right_mono) auto
  moreover have "\<bar>of_int (round_half_even (x / u)) - x / u\<bar> * u
      = \<bar>(of_int (round_half_even (x / u)) - x / u) * u\<bar>"
    using u by (simp add: abs_mult)
  moreover have "(of_int (round_half_even (x / u)) - x / u) * u
      = of_int (round_half_even (x / u)) * u - x"
    using u by (simp add: left_diff_distrib)
  ultimately have "\<bar>binary64 x - x\<bar> \<le> u / 2" using b by simp
  also have "u / 2 = 2 powi e / 2 ^ 53"
    by (simp add: u_def power_int_diff)
  also have "\<dots> \<le> x / 2 ^ 53"
    using flog2_bounds(1) [OF assms] by (simp add: e_def divide_right_mono)
  finally show ?thesis .
qed


lemma binary64_between:
  assumes "0 < x"
  shows "x * (1 - 1 / 2 ^ 53) \<le> binary64 x" and "binary64 x \<le> x * (1 + 1 / 2 ^ 53)"
proof -
  define d where "d = x / 2 ^ 53"
  have "\<bar>binary64 x - x\<bar> \<le> d"
    unfolding d_def using assms by (rule binary64_error)
  then have d: "x - d \<le> binary64 x" "binary64 x \<le> x + d"
    by linarith+
  have "x * (1 - 1 / 2 ^ 53) = x - d" and "x * (1 + 1 / 2 ^ 53) = x + d"
    unfolding d_def by (simp_all only: right_diff_distrib distrib_left mult_1_right times_divide_eq_right)
  with d show "x * (1 - 1 / 2 ^ 53) \<le> binary64 x" and "binary64 x \<le> x * (1 + 1 / 2 ^ 53)"
    by simp_all
qed

lemma min_scaled_le:
  fixes a b c :: rat
  assumes "a * c \<le> fa" and "b * c \<le> fb" and "0 \<le> c"
  shows "min a b * c \<le> min fa fb"
proof -
  have "min a b * c \<le> a * c" and "min a b * c \<le> b * c"
    using assms(3) by (simp_all add: mult_right_mono)
  with assms(1,2) show ?thesis by simp
qed

lemma min_le_scaled:
  fixes a b c :: rat
  assumes "fa \<le> a * c" and "fb \<le> b * c" and "0 \<le> c"
  shows "min fa fb \<le> min a b * c"
proof -
  have "min fa fb \<le> min (a * c) (b * c)"
    using assms(1,2) by (rule min.mono)
  then show ?thesis using assms(3) by (simp add: min_mult_distrib_right)
qed

lemma binary64_pos:
  assumes "0 < x"
  shows "0 < binary64 x"
proof -
  have "0 < x * (1 - 1 / 2 ^ 53)" using assms by simp
  then show ?thesis using binary64_between(1) [OF assms] by linarith
qed

lemma thumb_ratio_between:
  assumes "0 < w" and "0 < h"
  shows "exact_ratio w h * (1 - 1 / 2 ^ 53) \<le> thumb_ratio w h"
    and "thumb_ratio w h \<le> exact_ratio w h * (1 + 1 / 2 ^ 53)"
proof -
  let ?a = "160 / of_nat w :: rat" and ?b = "120 / of_nat h :: rat"
  have a: "0 < ?a" and b: "0 < ?b" using assms by simp_all
  have r: "thumb_ratio w h = min (binary64 ?a) (binary64 ?b)"
    by (simp add: thumb_ratio_def target_width_def target_height_def)
  show "exact_ratio w h * (1 - 1 / 2 ^ 53) \<le> thumb_ratio w h"
    unfolding r exact_ratio_def
    using binary64_between(1) [OF a] binary64_between(1) [OF b]
    by (rule min_scaled_le) simp
  show "thumb_ratio w h \<le> exact_ratio w h * (1 + 1 / 2 ^ 53)"
    unfolding r exact_ratio_def
    using binary64_between(2) [OF a] binary64_between(2) [OF b]
    by (rule min_le_scaled) simp
qed


lemma floor_near:
  fixes E z :: rat
  assumes E: "0 < E" "E \<le> 160" and k: "0 < k" "k < 2 ^ 31" and whole: "of_nat k * E \<in> \<int>"
    and lo: "E * (1 - 1 / 2 ^ 53) * (1 - 1 / 2 ^ 53) \<le> z"
    and hi: "z \<le> E * (1 + 1 / 2 ^ 53) * (1 + 1 / 2 ^ 53)"
  shows "\<lfloor>E\<rfloor> - 1 \<le> \<lfloor>z\<rfloor>" and "\<lfloor>z\<rfloor> \<le> \<lfloor>E\<rfloor>"
proof -
  define c :: rat where "c = 1 - (1 - 1 / 2 ^ 53) * (1 - 1 / 2 ^ 53)"
  have c: "0 \<le> c" "160 * c \<le> 1" by (simp_all add: c_def)
  have "E * c \<le> 160 * c" using E(2) c(1) by (rule mult_right_mono)
  moreover have "E * (1 - 1 / 2 ^ 53) * (1 - 1 / 2 ^ 53) = E - E * c"
    by (simp add: c_def algebra_simps)
  ultimately have "E - 1 \<le> z" using lo c(2) by linarith
  moreover have "of_int \<lfloor>E\<rfloor> \<le> E" by simp
  ultimately have "of_int \<lfloor>E\<rfloor> - 1 \<le> z" by linarith
  then have "of_int (\<lfloor>E\<rfloor> - 1) \<le> z" by simp
  then show "\<lfloor>E\<rfloor> - 1 \<le> \<lfloor>z\<rfloor>" by (simp only: le_floor_iff)
  define c' :: rat where "c' = (1 + 1 / 2 ^ 53) * (1 + 1 / 2 ^ 53) - 1"
  have c': "0 \<le> c'" "160 * c' < 1 / 2 ^ 31" by (simp_all add: c'_def)
  have "E * c' \<le> 160 * c'" using E(2) c'(1) by (rule mult_right_mono)
  moreover have "E * (1 + 1 / 2 ^ 53) * (1 + 1 / 2 ^ 53) = E + E * c'"
    by (simp add: c'_def algebra_simps)
  ultimately have zE: "z < E + 1 / 2 ^ 31" using hi c'(2) by linarith
  show "\<lfloor>z\<rfloor> \<le> \<lfloor>E\<rfloor>"
  proof (rule ccontr)
    assume "\<not> \<lfloor>z\<rfloor> \<le> \<lfloor>E\<rfloor>"
    then have "\<lfloor>E\<rfloor> + 1 \<le> \<lfloor>z\<rfloor>" by simp
    then have "(of_int (\<lfloor>E\<rfloor> + 1) :: rat) \<le> of_int \<lfloor>z\<rfloor>" by (simp only: of_int_le_iff)
    moreover have "E < of_int (\<lfloor>E\<rfloor> + 1)" by simp linarith
    ultimately have Ez: "E < of_int \<lfloor>z\<rfloor>" by linarith
    obtain m :: int where m: "of_nat k * E = of_int m"
      using whole by (rule Ints_cases)
    have kpos: "(0::rat) < of_nat k" using k(1) by simp
    have "of_nat k * E < of_nat k * of_int \<lfloor>z\<rfloor>"
      using Ez kpos by (simp add: mult_strict_left_mono)
    then have "(of_int m :: rat) < of_int (int k * \<lfloor>z\<rfloor>)" by (simp add: m)
    then have "m < int k * \<lfloor>z\<rfloor>" by (simp only: of_int_less_iff)
    then have "m + 1 \<le> int k * \<lfloor>z\<rfloor>" by simp
    then have "(of_int (m + 1) :: rat) \<le> of_int (int k * \<lfloor>z\<rfloor>)" by (simp only: of_int_le_iff)
    then have "of_int m + 1 \<le> of_nat k * (of_int \<lfloor>z\<rfloor> :: rat)" by simp
    also have "\<dots> \<le> of_nat k * z"
      using kpos by (simp add: mult_left_mono)
    also have "\<dots> < of_nat k * (E + 1 / 2 ^ 31)"
      using zE kpos by (simp add: mult_strict_left_mono)
    also have "\<dots> = of_int m + of_nat k / 2 ^ 31"
      by (simp add: m [symmetric] algebra_simps)
    finally have "(2::rat) ^ 31 < of_nat k" by simp
    moreover have "(of_nat k :: rat) < of_nat (2 ^ 31)"
      using k(2) by (simp only: of_nat_less_iff)
    ultimately show False by simp
  qed
qed

lemma scaled_dimension:
  assumes "0 < w" and "0 < h" and "0 < n"
    and bound: "of_nat n * exact_ratio w h \<le> 160"
    and k: "0 < k" "k < 2 ^ 31" "of_nat k * (of_nat n * exact_ratio w h) \<in> \<int>"
  shows "\<lfloor>of_nat n * exact_ratio w h\<rfloor> - 1 \<le> \<lfloor>binary64 (of_nat n * thumb_ratio w h)\<rfloor>"
    and "\<lfloor>binary64 (of_nat n * thumb_ratio w h)\<rfloor> \<le> \<lfloor>of_nat n * exact_ratio w h\<rfloor>"
proof -
  let ?R = "exact_ratio w h" and ?r = "thumb_ratio w h"
  let ?E = "of_nat n * ?R" and ?y = "of_nat n * ?r"
  have R: "0 < ?R" using assms(1,2) by (simp add: exact_ratio_def)
  have n: "(0::rat) < of_nat n" using assms(3) by simp
  have E: "0 < ?E" using R n by simp
  have "0 < ?R * (1 - 1 / 2 ^ 53)" using R by simp
  then have r: "0 < ?r" using thumb_ratio_between(1) [OF assms(1,2)] by linarith
  have y: "0 < ?y" using r n by simp
  have "?E * (1 - 1 / 2 ^ 53) \<le> ?y"
    using thumb_ratio_between(1) [OF assms(1,2)] n
    by (simp only: mult.assoc mult_le_cancel_left_pos)
  then have "?E * (1 - 1 / 2 ^ 53) * (1 - 1 / 2 ^ 53) \<le> ?y * (1 - 1 / 2 ^ 53)"
    by (rule mult_right_mono) simp
  also have "\<dots> \<le> binary64 ?y" using y by (rule binary64_between(1))
  finally have lo: "?E * (1 - 1 / 2 ^ 53) * (1 - 1 / 2 ^ 53) \<le> binary64 ?y" .
  have "?y \<le> ?E * (1 + 1 / 2 ^ 53)"
    using thumb_ratio_between(2) [OF assms(1,2)] n
    by (simp only: mult.assoc mult_le_cancel_left_pos)
  then have "?y * (1 + 1 / 2 ^ 53) \<le> ?E * (1 + 1 / 2 ^ 53) * (1 + 1 / 2 ^ 53)"
    by (rule mult_right_mono) simp
  moreover have "binary64 ?y \<le> ?y * (1 + 1 / 2 ^ 53)" using y by (rule binary64_between(2))
  ultimately have hi: "binary64 ?y \<le> ?E * (1 + 1 / 2 ^ 53) * (1 + 1 / 2 ^ 53)" by linarith
  show "\<lfloor>?E\<rfloor> - 1 \<le> \<lfloor>binary64 ?y\<rfloor>"
    using E bound k lo hi by (rule floor_near(1))
  show "\<lfloor>binary64 ?y\<rfloor> \<le> \<lfloor>?E\<rfloor>"
    using E bound k lo hi by (rule floor_near(2))
qed


lemma exact_scaled_whole:
  assumes "0 < w" and "0 < h"
  shows "of_nat h * (of_nat w * exact_ratio w h) \<in> \<int>"
proof (cases "(160::rat) / of_nat w \<le> 120 / of_nat h")
  case True
  then have "of_nat h * (of_nat w * exact_ratio w h) = of_nat (160 * h)"
    using assms by (simp add: exact_ratio_def min_def)
  then show ?thesis by (simp only: Ints_of_nat)
next
  case False
  then have "of_nat h * (of_nat w * exact_ratio w h) = of_nat (120 * w)"
    using assms by (simp add: exact_ratio_def min_def)
  then show ?thesis by (simp only: Ints_of_nat)
qed

lemma exact_width_le:
  assumes "0 < w"
  shows "of_nat w * exact_ratio w h \<le> 160"
proof -
  have "of_nat w * exact_ratio w h \<le> of_nat w * (160 / of_nat w)"
    unfolding exact_ratio_def by (intro mult_left_mono) simp_all
  then show ?thesis using assms by simp
qed

lemma exact_height_le:
  assumes "0 < h"
  shows "of_nat h * exact_ratio w h \<le> 120"
proof -
  have "of_nat h * exact_ratio w h \<le> of_nat h * (120 / of_nat h)"
    unfolding exact_ratio_def by (intro mult_left_mono) simp_all
  then show ?thesis using assms by simp
qed

lemma nat_floor_near:
  fixes a b :: int
  assumes "a - 1 \<le> b" and "b \<le> a"
  shows "nat b \<le> nat a" and "nat a \<le> nat b + 1"
  using assms by linarith+

lemma round_half_even_value:
  assumes "\<bar>q - of_int n\<bar> < 1 / 2"
  shows "round_half_even q = n"
proof (cases "of_int n \<le> q")
  case True
  then have "\<lfloor>q\<rfloor> = n" using assms by (intro floor_unique) linarith+
  then show ?thesis using assms True by (simp add: round_half_even_def Let_def)
next
  case False
  have "of_int (n - 1) \<le> q" and "q < of_int (n - 1) + 1"
    using assms False by simp_all
  then have "\<lfloor>q\<rfloor> = n - 1" by (rule floor_unique)
  then show ?thesis using assms False by (simp add: round_half_even_def Let_def)
qed

lemma binary64_value:
  assumes "0 < x" and "2 powi e \<le> x" and "x < 2 powi (e + 1)"
    and "\<bar>x / 2 powi (e - 52) - of_int n\<bar> < 1 / 2"
  shows "binary64 x = of_int n * 2 powi (e - 52)"
  using binary64_eval [OF assms(1-3)] round_half_even_value [OF assms(4)] by simp

lemma nat_floor_value:
  fixes x :: rat
  assumes "of_nat n \<le> x" and "x < of_nat n + 1"
  shows "nat \<lfloor>x\<rfloor> = n"
proof -
  have "\<lfloor>x\<rfloor> = int n" using assms by (intro floor_unique) simp_all
  then show ?thesis by simp
qed

lemma thumb_ratio_4928_3264: "thumb_ratio 4928 3264 = 4679064547917398 / 2 ^ 57"
proof -
  have "binary64 (160 / 4928) = 4679064547917398 / 2 ^ 57"
    using binary64_value [of "160 / 4928" "-5" 4679064547917398] by simp
  moreover have "binary64 (120 / 3264) = 5298352502788819 / 2 ^ 57"
    using binary64_value [of "120 / 3264" "-5" 5298352502788819] by simp
  ultimately show ?thesis
    by (simp add: thumb_ratio_def target_width_def target_height_def)
qed

lemma thumb_size_4928_3264: "thumb_size 4928 3264 = Inr (159, 105)"
proof -
  let ?r = "4679064547917398 / 2 ^ 57 :: rat"
  have "binary64 (4928 * ?r) = 5629499534213119 / 2 ^ 45"
    using binary64_value [of "4928 * ?r" 7 5629499534213119] by simp
  then have w: "nat \<lfloor>binary64 (of_nat 4928 * ?r)\<rfloor> = 159"
    by (intro nat_floor_value) simp_all
  have "binary64 (3264 * ?r) = 7457259123243353 / 2 ^ 46"
    using binary64_value [of "3264 * ?r" 6 7457259123243353] by simp
  then have h: "nat \<lfloor>binary64 (of_nat 3264 * ?r)\<rfloor> = 105"
    by (intro nat_floor_value) simp_all
  show ?thesis
    unfolding thumb_size_def Let_def thumb_ratio_4928_3264 w h by simp
qed

lemma exact_thumb_size_4928_3264: "exact_thumb_size 4928 3264 = (160, 105)"
proof -
  have "exact_ratio 4928 3264 = 5 / 154" by (simp add: exact_ratio_def)
  moreover have "nat \<lfloor>of_nat 4928 * (5 / 154 :: rat)\<rfloor> = 160"
    by (intro nat_floor_value) simp_all
  moreover have "nat \<lfloor>of_nat 3264 * (5 / 154 :: rat)\<rfloor> = 105"
    by (intro nat_floor_value) simp_all
  ultimately show ?thesis by (simp only: exact_thumb_size_def)
qed


lemma thumb_size_near_exact:
  assumes "0 < w" and "w < 2 ^ 31" and "0 < h" and "h < 2 ^ 31"
  shows "\<exists>new_width new_height.
           thumb_size w h = Inr (new_width, new_height) \<and>
           new_width \<le> 160 \<and> new_height \<le> 120 \<and>
           new_width \<le> fst (exact_thumb_size w h) \<and>
           fst (exact_thumb_size w h) \<le> new_width + 1 \<and>
           new_height \<le> snd (exact_thumb_size w h) \<and>
           snd (exact_thumb_size w h) \<le> new_height + 1"
proof -
  let ?R = "exact_ratio w h" and ?r = "thumb_ratio w h"
  let ?zw = "binary64 (of_nat w * ?r)" and ?zh = "binary64 (of_nat h * ?r)"
  have t: "thumb_size w h = Inr (nat \<lfloor>?zw\<rfloor>, nat \<lfloor>?zh\<rfloor>)"
    using assms(1,3) by (simp add: thumb_size_def Let_def)
  have Ew: "of_nat w * ?R \<le> 160" using assms(1) by (rule exact_width_le)
  have Eh: "of_nat h * ?R \<le> 120" using assms(3) by (rule exact_height_le)
  then have Eh': "of_nat h * ?R \<le> 160" by linarith
  have kw: "of_nat h * (of_nat w * ?R) \<in> \<int>"
    using assms(1,3) by (rule exact_scaled_whole)
  then have kh: "of_nat w * (of_nat h * ?R) \<in> \<int>"
    by (simp only: mult.left_commute)
  note W = scaled_dimension [OF assms(1,3) assms(1) Ew assms(3,4) kw]
  note H = scaled_dimension [OF assms(1,3) assms(3) Eh' assms(1,2) kh]
  have fw: "\<lfloor>of_nat w * ?R\<rfloor> \<le> 160" using Ew by (simp add: floor_le_iff)
  have fh: "\<lfloor>of_nat h * ?R\<rfloor> \<le> 120" using Eh by (simp add: floor_le_iff)
  have "nat \<lfloor>?zw\<rfloor> \<le> 160" using W(2) fw by linarith
  moreover have "nat \<lfloor>?zh\<rfloor> \<le> 120" using H(2) fh by linarith
  moreover have "nat \<lfloor>?zw\<rfloor> \<le> fst (exact_thumb_size w h)"
    and "fst (exact_thumb_size w h) \<le> nat \<lfloor>?zw\<rfloor> + 1"
    unfolding exact_thumb_size_def fst_conv using W by (rule nat_floor_near)+
  moreover have "nat \<lfloor>?zh\<rfloor> \<le> snd (exact_thumb_size w h)"
    and "snd (exact_thumb_size w h) \<le> nat \<lfloor>?zh\<rfloor> + 1"
    unfolding exact_thumb_size_def snd_conv using H by (rule nat_floor_near)+
  ultimately show ?thesis using t by blast
qed

section \<open>The splice keeps the non-EXIF portion\<close>

declare split_segments.simps [simp del]

lemma split_segments_append:
  assumes "wf_segment s"
  shows "split_segments (s @ t) = (s # fst (split_segments t), snd (split_segments t))"
proof -
  have len: "4 \<le> length s" and sl: "segment_length s = length s"
    and m: "s ! 0 = 0xFF" "s ! 1 \<noteq> 0xDA"
    using assms by (auto simp: wf_segment_def starts_segment_def)
  have sl': "segment_length (s @ t) = length s"
    using len sl by (simp add: segment_length_def nth_append)
  have "starts_segment (s @ t)"
    using len m sl' by (auto simp: starts_segment_def nth_append)
  then show ?thesis
    by (subst split_segments.simps) (simp add: sl' split: prod.splits)
qed

lemma split_segments_wf:
  "split_segments b = (segments, rest) \<Longrightarrow>
     (\<forall>s \<in> set segments. wf_segment s) \<and> split_segments rest = ([], rest)"
proof (induction b arbitrary: segments rest rule: split_segments.induct)
  case (1 b)
  show ?case
  proof (cases "starts_segment b")
    case False
    then have "split_segments b = ([], b)"
      by (subst split_segments.simps) simp
    with "1.prems" show ?thesis by auto
  next
    case True
    obtain segs r where rec: "split_segments (drop (segment_length b) b) = (segs, r)"
      by (cases "split_segments (drop (segment_length b) b)")
    have res: "segments = take (segment_length b) b # segs" "rest = r"
      using "1.prems" True rec by (subst (asm) split_segments.simps, simp)+
    define n where "n = segment_length b"
    have n: "4 \<le> n" "n \<le> length b" and m: "b ! 0 = 0xFF" "b ! 1 \<noteq> 0xDA"
      using True by (simp_all add: starts_segment_def n_def)
    have same: "take n b ! i = b ! i" if "i < 4" for i
      using n(1) that by simp
    have "segment_length (take n b) = n"
      unfolding segment_length_def same [of 2, simplified] same [of 3, simplified]
      by (simp add: n_def segment_length_def)
    moreover have "take n b ! 0 = 0xFF" and "take n b ! 1 \<noteq> 0xDA"
      using m same [of 0] same [of 1] by simp_all
    ultimately have "wf_segment (take (segment_length b) b)"
      using n unfolding n_def [symmetric] by (simp add: wf_segment_def starts_segment_def)
    with "1.IH" [OF True rec] res show ?thesis by simp
  qed
qed

lemma split_segments_concat:
  assumes "\<forall>s \<in> set ss. wf_segment s" and "split_segments rest = ([], rest)"
  shows "split_segments (concat ss @ rest) = (ss, rest)"
  using assms by (induction ss) (simp_all add: split_segments_append)

lemma wf_exif_segment:
  assumes "length exif + 2 \<le> 65535"
  shows "wf_segment (exif_segment exif)"
proof -
  let ?L = "length exif + 2"
  have "?L div 256 < 256" and "?L mod 256 < 256" using assms by simp_all
  then have "unat (of_nat (?L div 256) :: 8 word) = ?L div 256"
    and "unat (of_nat (?L mod 256) :: 8 word) = ?L mod 256"
    by (simp_all add: unat_of_nat)
  then have "segment_length (exif_segment exif) = length exif + 4"
    by (simp add: segment_length_def exif_segment_def)
  then show ?thesis
    by (simp add: wf_segment_def starts_segment_def) (simp add: exif_segment_def)
qed

lemma is_exif_exif_segment:
  "take 6 exif = exif_header \<Longrightarrow> is_exif_segment (exif_segment exif)"
  by (simp add: is_exif_segment_def exif_segment_def)

lemma exif_splice_preserves:
  assumes "exif_splice exif picture = Inr output"
  shows "non_exif_portion output = non_exif_portion picture"
proof -
  have hdr: "take 6 exif = exif_header" and soi: "take 2 picture = SOI"
    and small: "length exif + 2 \<le> 65535"
    and out: "output = SOI @ exif_segment exif @ drop 2 (non_exif_portion picture)"
    using assms by (auto simp: exif_splice_def split: if_splits)
  obtain segments rest where sp: "split_segments (drop 2 picture) = (segments, rest)"
    by (cases "split_segments (drop 2 picture)")
  let ?kept = "filter (\<lambda>s. \<not> is_exif_segment s) segments"
  have portion: "non_exif_portion picture = SOI @ concat ?kept @ rest"
    using soi sp by (simp add: non_exif_portion_def)
  have wf: "\<forall>s \<in> set ?kept. wf_segment s" and tail: "split_segments rest = ([], rest)"
    using split_segments_wf [OF sp] by auto
  have "split_segments (exif_segment exif @ concat ?kept @ rest)
      = (exif_segment exif # ?kept, rest)"
    using split_segments_append [OF wf_exif_segment [OF small], of "concat ?kept @ rest"]
      split_segments_concat [OF wf tail] by simp
  moreover have "drop 2 output = exif_segment exif @ concat ?kept @ rest"
    and "take 2 output = SOI"
    by (simp_all add: out portion SOI_def)
  ultimately have "non_exif_portion output = SOI @ concat ?kept @ rest"
    using is_exif_exif_segment [OF hdr] by (simp add: non_exif_portion_def)
  with portion show ?thesis by simp
qed

section \<open>Outcomes of the worker\<close>

lemma make_thumbnail_Returned:
  "make_thumbnail lib original_bytes filename = Returned r \<Longrightarrow> fst r = ''FAILURE''"
  by (auto simp: make_thumbnail_def split: sum.splits option.splits prod.splits if_splits)

lemma build_output_Returned:
  "build_output lib original_bytes filename = Returned r \<Longrightarrow> fst r = ''FAILURE''"
  by (auto simp: build_output_def split: step.splits sum.splits dest: make_thumbnail_Returned)

lemma resolve_conflict_Returned:
  "resolve_conflict lib fs conflict_resolution new_filename output_path = Returned r \<Longrightarrow>
     fst r = ''SKIPPED_EXISTS'' \<and> conflict_resolution = ''skip'' \<and> fs_exists fs output_path"
  by (auto simp: resolve_conflict_def split: if_splits prod.splits)

lemma resolve_conflict_not_Raised:
  "resolve_conflict lib fs conflict_resolution new_filename output_path \<noteq> Raised e"
  by (auto simp: resolve_conflict_def split: if_splits prod.splits)

lemma try_body_status:
  "try_body lib fs args filename = (Inr r, fs') \<Longrightarrow>
     fst r \<in> {''SUCCESS'', ''SKIPPED_EXISTS'', ''FAILURE''}"
  by (auto simp: try_body_def Let_def
      split: prod.splits sum.splits step.splits
      dest!: build_output_Returned resolve_conflict_Returned)

lemma process_single_file_status:
  "fst (fst (process_single_file lib fs args)) \<in> {''SUCCESS'', ''SKIPPED_EXISTS'', ''FAILURE''}"
proof (cases "try_body lib fs args (path_basename lib (fst args))")
  case (Pair outcome fs')
  show ?thesis
  proof (cases outcome)
    case (Inl e)
    with Pair show ?thesis by (simp add: process_single_file_def Let_def)
  next
    case (Inr r)
    with Pair try_body_status [of lib fs args _ r fs'] show ?thesis
      by (simp add: process_single_file_def Let_def)
  qed
qed

lemma process_single_file_SUCCESS_D:
  assumes "process_single_file lib fs (full_path, output_root_folder, filename_format,
             conflict_resolution, root_folder, show_log) = ((''SUCCESS'', message), fs')"
  shows "\<exists>original_bytes output_bytes folder fs1 final_path.
           fs_read (os_error lib) fs full_path = Inr original_bytes \<and>
           build_output lib original_bytes (path_basename lib full_path) = Value output_bytes \<and>
           output_folder lib full_path output_root_folder root_folder = Inr folder \<and>
           fs_makedirs (os_error lib) fs folder = Inr fs1 \<and>
           resolve_conflict lib fs1 conflict_resolution
             (output_filename lib filename_format (path_basename lib full_path))
             (path_join lib folder
                (output_filename lib filename_format (path_basename lib full_path)))
             = Value final_path \<and>
           fs_write (os_error lib) fs1 final_path output_bytes = Inr fs' \<and>
           message = msg_processed @ path_basename lib full_path @ '' -> ''
                       @ path_basename lib final_path"
  using assms
  by (auto simp: process_single_file_def try_body_def Let_def
      split: prod.splits sum.splits step.splits
      dest!: build_output_Returned resolve_conflict_Returned)

lemma process_single_file_SUCCESS_I:
  assumes "fs_read (os_error lib) fs full_path = Inr original_bytes"
    and "build_output lib original_bytes (path_basename lib full_path) = Value output_bytes"
    and "output_folder lib full_path output_root_folder root_folder = Inr folder"
    and "fs_makedirs (os_error lib) fs folder = Inr fs1"
    and "resolve_conflict lib fs1 conflict_resolution
           (output_filename lib filename_format (path_basename lib full_path))
           (path_join lib folder
              (output_filename lib filename_format (path_basename lib full_path)))
           = Value final_path"
    and "fs_write (os_error lib) fs1 final_path output_bytes = Inr fs'"
  shows "process_single_file lib fs (full_path, output_root_folder, filename_format,
             conflict_resolution, root_folder, show_log)
         = ((''SUCCESS'', msg_processed @ path_basename lib full_path @ '' -> ''
                @ path_basename lib final_path), fs')"
  using assms by (simp add: process_single_file_def try_body_def Let_def)

lemma build_output_Value_D:
  assumes "build_output lib original_bytes filename = Value output_bytes"
  shows "\<exists>thumb_buf exif_bytes.
           make_thumbnail lib original_bytes filename = Value thumb_buf \<and>
           piexif_dump lib (new_exif lib original_bytes thumb_buf) = Inr exif_bytes \<and>
           piexif_insert lib exif_bytes original_bytes = Inr output_bytes"
  using assms by (auto simp: build_output_def split: step.splits sum.splits)

lemma fs_write_D:
  "fs_write err fs p b = Inr fs' \<Longrightarrow> fs' = (p, File b) # fs \<and> \<not> fs_isdir fs p"
  by (auto simp: fs_write_def fs_isdir_def split: option.splits node.splits)


lemma orientation_of_ensure:
  "orientation_of (ensure_orientation d) =
     (case orientation_of d of None \<Rightarrow> Some (ExifInt 0) | Some v \<Rightarrow> Some v)"
  by (auto simp: orientation_of_def ensure_orientation_def Let_def split: option.splits)

lemma orientation_of_new_exif:
  "orientation_of (new_exif lib original_bytes thumb_buf) =
     (case orientation_of (load_exif lib original_bytes) of
        None \<Rightarrow> Some (ExifInt 0) | Some v \<Rightarrow> Some v)"
  using orientation_of_ensure [of "load_exif lib original_bytes"]
  by (simp add: new_exif_def attach_thumbnail_def orientation_of_def)



lemma run_tasks_length:
  "run_tasks lib fs tasks = (results, fs') \<Longrightarrow> length results = length tasks"
  by (induction tasks arbitrary: fs results) (auto split: prod.splits)

lemma run_tasks_status:
  "run_tasks lib fs tasks = (results, fs') \<Longrightarrow>
     \<forall>r \<in> set results. fst r \<in> {''SUCCESS'', ''SKIPPED_EXISTS'', ''FAILURE''}"
proof (induction tasks arbitrary: fs results fs')
  case Nil
  then show ?case by simp
next
  case (Cons t ts)
  obtain r fs1 where p: "process_single_file lib fs t = (r, fs1)"
    by (cases "process_single_file lib fs t")
  obtain rs fs2 where q: "run_tasks lib fs1 ts = (rs, fs2)"
    by (cases "run_tasks lib fs1 ts")
  have "fst r \<in> {''SUCCESS'', ''SKIPPED_EXISTS'', ''FAILURE''}"
    using process_single_file_status [of lib fs t] p by simp
  with Cons.prems p q Cons.IH [OF q] show ?case by auto
qed

lemma count_result_fst:
  "fst (count_result show_log r (c, queue)) =
     \<lparr>processed_count = processed_count c + count_status ''SUCCESS'' [r],
      skipped_exists_count = skipped_exists_count c + count_status ''SKIPPED_EXISTS'' [r],
      failed_count = failed_count c + count_status ''FAILURE'' [r]\<rparr>"
  by (cases r) (simp add: count_result_def count_status_def)

lemma count_status_Cons:
  "count_status s (r # rs) = count_status s [r] + count_status s rs"
  by (simp add: count_status_def)

lemma fold_count_result:
  "fst (fold (count_result show_log) results (c, queue)) =
     \<lparr>processed_count = processed_count c + count_status ''SUCCESS'' results,
      skipped_exists_count = skipped_exists_count c + count_status ''SKIPPED_EXISTS'' results,
      failed_count = failed_count c + count_status ''FAILURE'' results\<rparr>"
proof (induction results arbitrary: c queue)
  case Nil
  show ?case by (simp add: count_status_def)
next
  case (Cons r rs)
  obtain c' queue' where step: "count_result show_log r (c, queue) = (c', queue')"
    by (cases "count_result show_log r (c, queue)")
  have c': "c' = \<lparr>processed_count = processed_count c + count_status ''SUCCESS'' [r],
      skipped_exists_count = skipped_exists_count c + count_status ''SKIPPED_EXISTS'' [r],
      failed_count = failed_count c + count_status ''FAILURE'' [r]\<rparr>"
    using count_result_fst [of show_log r c queue] step by simp
  have "fold (count_result show_log) (r # rs) (c, queue)
      = fold (count_result show_log) rs (c', queue')"
    by (simp only: fold_simps step)
  then show ?case
    by (simp only: Cons.IH count_status_Cons [of _ r rs]) (simp add: c')
qed

lemma tally_counts:
  "fst (tally show_log results) =
     \<lparr>processed_count = count_status ''SUCCESS'' results,
      skipped_exists_count = count_status ''SKIPPED_EXISTS'' results,
      failed_count = count_status ''FAILURE'' results\<rparr>"
  by (simp add: tally_def fold_count_result)

lemma process_results_counts:
  "fst (process_results show_log results skipped_thumb_count duration_text) =
     \<lparr>processed_count = count_status ''SUCCESS'' results,
      skipped_exists_count = count_status ''SKIPPED_EXISTS'' results,
      failed_count = count_status ''FAILURE'' results\<rparr>"
  using tally_counts [of show_log results]
  by (cases "tally show_log results") (simp add: process_results_def)

lemma count_status_mset:
  "mset xs = mset ys \<Longrightarrow> count_status s xs = count_status s ys"
proof -
  assume "mset xs = mset ys"
  then have "size (filter_mset (\<lambda>r. fst r = s) (mset xs))
      = size (filter_mset (\<lambda>r. fst r = s) (mset ys))" by simp
  then show ?thesis by (simp only: count_status_def mset_filter [symmetric] size_mset)
qed

lemma count_status_total:
  assumes "\<forall>r \<in> set results. fst r \<in> {''SUCCESS'', ''SKIPPED_EXISTS'', ''FAILURE''}"
  shows "count_status ''SUCCESS'' results + count_status ''SKIPPED_EXISTS'' results
           + count_status ''FAILURE'' results = length results"
  using assms by (induction results) (auto simp: count_status_def)

lemma fold_scan_file:
  "fold (scan_file lib fs input_path output_path filename_format conflict_resolution show_log
           current_folder) filenames (tasks, n) =
     (tasks @ map (\<lambda>filename. (path_join lib current_folder filename, output_path,
                     filename_format, conflict_resolution, input_path, show_log))
                  (filter (\<lambda>filename. is_jpeg_name filename \<and>
                             \<not> has_thumbnail lib fs (path_join lib current_folder filename))
                     filenames),
      n + length (filter (\<lambda>filename. is_jpeg_name filename \<and>
                            has_thumbnail lib fs (path_join lib current_folder filename))
                    filenames))"
proof (induction filenames arbitrary: tasks n)
  case Nil
  show ?case by simp
next
  case (Cons f fs')
  have step: "scan_file lib fs input_path output_path filename_format conflict_resolution show_log
      current_folder f (tasks, n) =
      (if is_jpeg_name f \<and> \<not> has_thumbnail lib fs (path_join lib current_folder f)
       then (tasks @ [(path_join lib current_folder f, output_path, filename_format,
                       conflict_resolution, input_path, show_log)], n)
       else if is_jpeg_name f then (tasks, n + 1) else (tasks, n))"
    by (simp add: scan_file_def has_thumbnail_def Let_def split: sum.splits)
  have "fold (scan_file lib fs input_path output_path filename_format conflict_resolution
                show_log current_folder) (f # fs') (tasks, n)
      = fold (scan_file lib fs input_path output_path filename_format conflict_resolution
                show_log current_folder) fs'
          (scan_file lib fs input_path output_path filename_format conflict_resolution show_log
             current_folder f (tasks, n))"
    by (simp only: fold_simps)
  then show ?case
    by (simp only: step) (simp add: Cons.IH)
qed

lemma fold_scan_walk:
  "fold (\<lambda>(current_folder, dirnames, filenames) acc.
           fold (scan_file lib fs input_path output_path filename_format conflict_resolution
                   show_log current_folder) filenames acc) entries (tasks, n) =
     (tasks @ map (\<lambda>(current_folder, filename).
                     (path_join lib current_folder filename, output_path, filename_format,
                      conflict_resolution, input_path, show_log))
                  (filter (\<lambda>(current_folder, filename). is_jpeg_name filename \<and>
                             \<not> has_thumbnail lib fs (path_join lib current_folder filename))
                     (concat (map (\<lambda>(current_folder, dirnames, filenames).
                                     map (\<lambda>filename. (current_folder, filename)) filenames)
                                entries))),
      n + length (filter (\<lambda>(current_folder, filename). is_jpeg_name filename \<and>
                            has_thumbnail lib fs (path_join lib current_folder filename))
                    (concat (map (\<lambda>(current_folder, dirnames, filenames).
                                    map (\<lambda>filename. (current_folder, filename)) filenames)
                               entries))))"
proof (induction entries arbitrary: tasks n)
  case Nil
  show ?case by simp
next
  case (Cons entry entries)
  obtain current_folder dirnames filenames where
    entry: "entry = (current_folder, dirnames, filenames)"
    by (cases entry)
  show ?case
    by (simp add: entry fold_scan_file Cons.IH filter_map o_def)
qed

subsection \<open>What the worker leaves on the file system\<close>


































subsection \<open>A run of the concrete library\<close>

lemma sample_make_thumbnail:
  "make_thumbnail sample_lib [0, 10, 20, 30] filename = Value [10, 20]"
  by (simp add: make_thumbnail_def sample_lib_def sample_imdecode_def sample_pixel_data_def
      thumb_size_4928_3264 sample_resize_def sample_imencode_def)

lemma sample_build_output:
  "build_output sample_lib [0, 10, 20, 30] filename = Value [2, 10, 20, 10, 20, 30]"
  by (simp add: build_output_def sample_make_thumbnail new_exif_def attach_thumbnail_def)
    (simp add: sample_lib_def sample_dump_def sample_insert_def sample_pixel_data_def)

lemma sample_names:
  "path_basename sample_lib ''/in/a.jpg'' = ''a.jpg''"
  "output_filename sample_lib ''{Filename}-thumb'' ''a.jpg'' = ''a-thumb.jpg''"
  "output_folder sample_lib ''/in/a.jpg'' ''/out'' ''/in'' = Inr ''/out/.''"
  "path_join sample_lib ''/out/.'' ''a-thumb.jpg'' = ''/out/./a-thumb.jpg''"
  "path_splitext sample_lib ''/out/./a-thumb.jpg'' = (''/out/./a-thumb'', ''.jpg'')"
  "path_basename sample_lib ''/out/./a-thumb.jpg'' = ''a-thumb.jpg''"
  by (simp_all add: sample_lib_def sample_basename_def output_filename_def sample_splitext_def
      placeholder_def output_folder_def sample_dirname_def sample_relpath_def sample_join_def
      Let_def)

lemma sample_run:
  "process_single_file sample_lib sample_fs (sample_task policy) =
     ((''SUCCESS'', msg_processed @ ''a.jpg'' @ '' -> '' @ ''a-thumb.jpg''),
      (''/out/./a-thumb.jpg'', File [2, 10, 20, 10, 20, 30]) # (''/out/.'', Dir) # sample_fs)"
proof -
  have "process_single_file sample_lib sample_fs
          (''/in/a.jpg'', ''/out'', ''{Filename}-thumb'', policy, ''/in'', False)
        = ((''SUCCESS'', msg_processed @ path_basename sample_lib ''/in/a.jpg'' @ '' -> ''
              @ path_basename sample_lib ''/out/./a-thumb.jpg''),
           (''/out/./a-thumb.jpg'', File [2, 10, 20, 10, 20, 30]) # (''/out/.'', Dir) # sample_fs)"
  proof (rule process_single_file_SUCCESS_I)
    show "fs_read (os_error sample_lib) sample_fs ''/in/a.jpg'' = Inr [0, 10, 20, 30]"
      by (simp add: fs_read_def sample_fs_def)
    show "build_output sample_lib [0, 10, 20, 30] (path_basename sample_lib ''/in/a.jpg'')
          = Value [2, 10, 20, 10, 20, 30]"
      by (rule sample_build_output)
    show "output_folder sample_lib ''/in/a.jpg'' ''/out'' ''/in'' = Inr ''/out/.''"
      by (rule sample_names)
    show "fs_makedirs (os_error sample_lib) sample_fs ''/out/.'' = Inr ((''/out/.'', Dir) # sample_fs)"
      by (simp add: fs_makedirs_def sample_fs_def)
    show "resolve_conflict sample_lib ((''/out/.'', Dir) # sample_fs) policy
            (output_filename sample_lib ''{Filename}-thumb'' (path_basename sample_lib ''/in/a.jpg''))
            (path_join sample_lib ''/out/.''
               (output_filename sample_lib ''{Filename}-thumb''
                  (path_basename sample_lib ''/in/a.jpg'')))
          = Value ''/out/./a-thumb.jpg''"
      by (simp add: sample_names resolve_conflict_def fs_exists_def sample_fs_def)
    show "fs_write (os_error sample_lib) ((''/out/.'', Dir) # sample_fs) ''/out/./a-thumb.jpg''
            [2, 10, 20, 10, 20, 30]
          = Inr ((''/out/./a-thumb.jpg'', File [2, 10, 20, 10, 20, 30]) # (''/out/.'', Dir) # sample_fs)"
      by (simp add: fs_write_def sample_fs_def)
  qed
  then show ?thesis by (simp add: sample_task_def sample_names)
qed

lemma is_jpeg_name_samples:
  "is_jpeg_name ''a.jpg''" "is_jpeg_name ''b.JPG''" "\<not> is_jpeg_name ''c.txt''"
  "is_jpeg_name ''d.jpeg''" "\<not> is_jpeg_name ''e.jpg.bak''"
  by (simp_all add: is_jpeg_name_def py_lower_def lower_char_def endswith_def)

lemma sample_tree_walk:
  "walk_files sample_lib sample_tree ''/in'' =
     [(''/in'', ''a.jpg''), (''/in'', ''b.JPG''), (''/in'', ''c.txt''), (''/in'', ''d.jpeg''),
      (''/in'', ''e.jpg.bak'')]"
  by (simp add: walk_files_def sample_lib_def sample_walk_def sample_tree_def
      sample_basename_def sample_dirname_def)

lemma sample_tree_thumbnails:
  "\<not> has_thumbnail sample_lib sample_tree ''/in/a.jpg''"
  "has_thumbnail sample_lib sample_tree ''/in/b.JPG''"
  "\<not> has_thumbnail sample_lib sample_tree ''/in/d.jpeg''"
  by (simp_all add: has_thumbnail_def fs_read_def sample_tree_def sample_lib_def sample_load_def)


lemma jpeg_portions:
  "non_exif_portion jpeg_file = [0xFF, 0xD8, 0xFF, 0xDB, 0, 3, 7, 0xFF, 0xDA, 1, 2, 3]"
  by (simp add: non_exif_portion_def jpeg_file_def SOI_def split_segments.simps
      starts_segment_def segment_length_def is_exif_segment_def exif_header_def)

lemma jpeg_build_output:
  "build_output jpeg_lib jpeg_file filename =
     Value [0xFF, 0xD8, 0xFF, 0xE1, 0, 10, 0x45, 0x78, 0x69, 0x66, 0, 0, 0xFF, 0xE1,
            0xFF, 0xDB, 0, 3, 7, 0xFF, 0xDA, 1, 2, 3]"
proof -
  have t: "make_thumbnail jpeg_lib jpeg_file filename = Value [0xFF, 0xE1]"
    by (simp add: make_thumbnail_def jpeg_lib_def sample_lib_def jpeg_file_def SOI_def
        thumb_size_4928_3264 sample_resize_def sample_imencode_def)
  have d: "piexif_dump jpeg_lib (new_exif jpeg_lib jpeg_file [0xFF, 0xE1])
      = Inr [0x45, 0x78, 0x69, 0x66, 0, 0, 0xFF, 0xE1]"
    by (simp add: jpeg_lib_def sample_lib_def new_exif_def attach_thumbnail_def exif_header_def)
  have i: "piexif_insert jpeg_lib [0x45, 0x78, 0x69, 0x66, 0, 0, 0xFF, 0xE1] jpeg_file
      = Inr [0xFF, 0xD8, 0xFF, 0xE1, 0, 10, 0x45, 0x78, 0x69, 0x66, 0, 0, 0xFF, 0xE1,
             0xFF, 0xDB, 0, 3, 7, 0xFF, 0xDA, 1, 2, 3]"
    by (simp add: jpeg_lib_def sample_lib_def exif_splice_def exif_header_def jpeg_portions
        exif_segment_def)
      (simp add: jpeg_file_def SOI_def)
  show ?thesis by (simp add: build_output_def t d i)
qed

lemma jpeg_names:
  "path_basename jpeg_lib = path_basename sample_lib"
  "output_filename jpeg_lib = output_filename sample_lib"
  "output_folder jpeg_lib = output_folder sample_lib"
  "path_join jpeg_lib = path_join sample_lib"
  "os_error jpeg_lib = os_error sample_lib"
  by (simp_all add: jpeg_lib_def output_filename_def output_folder_def fun_eq_iff
      split: sum.splits)

lemma jpeg_output_portion:
  "non_exif_portion [0xFF, 0xD8, 0xFF, 0xE1, 0, 10, 0x45, 0x78, 0x69, 0x66, 0, 0, 0xFF, 0xE1,
                     0xFF, 0xDB, 0, 3, 7, 0xFF, 0xDA, 1, 2, 3]
     = [0xFF, 0xD8, 0xFF, 0xDB, 0, 3, 7, 0xFF, 0xDA, 1, 2, 3]"
  by (simp add: non_exif_portion_def SOI_def split_segments.simps
      starts_segment_def segment_length_def is_exif_segment_def exif_header_def)

lemma jpeg_run:
  "process_single_file jpeg_lib jpeg_fs (sample_task ''skip'') =
     ((''SUCCESS'', msg_processed @ ''a.jpg'' @ '' -> '' @ ''a-thumb.jpg''),
      (''/out/./a-thumb.jpg'',
       File [0xFF, 0xD8, 0xFF, 0xE1, 0, 10, 0x45, 0x78, 0x69, 0x66, 0, 0, 0xFF, 0xE1,
             0xFF, 0xDB, 0, 3, 7, 0xFF, 0xDA, 1, 2, 3]) # (''/out/.'', Dir) # jpeg_fs)"
proof -
  let ?out = "[0xFF, 0xD8, 0xFF, 0xE1, 0, 10, 0x45, 0x78, 0x69, 0x66, 0, 0, 0xFF, 0xE1,
               0xFF, 0xDB, 0, 3, 7, 0xFF, 0xDA, 1, 2, 3] :: bytes"
  have "process_single_file jpeg_lib jpeg_fs
          (''/in/a.jpg'', ''/out'', ''{Filename}-thumb'', ''skip'', ''/in'', False)
        = ((''SUCCESS'', msg_processed @ path_basename jpeg_lib ''/in/a.jpg'' @ '' -> ''
              @ path_basename jpeg_lib ''/out/./a-thumb.jpg''),
           (''/out/./a-thumb.jpg'', File ?out) # (''/out/.'', Dir) # jpeg_fs)"
  proof (rule process_single_file_SUCCESS_I)
    show "fs_read (os_error jpeg_lib) jpeg_fs ''/in/a.jpg'' = Inr jpeg_file"
      by (simp add: fs_read_def jpeg_fs_def)
    show "build_output jpeg_lib jpeg_file (path_basename jpeg_lib ''/in/a.jpg'') = Value ?out"
      by (rule jpeg_build_output)
    show "output_folder jpeg_lib ''/in/a.jpg'' ''/out'' ''/in'' = Inr ''/out/.''"
      by (simp add: jpeg_names sample_names)
    show "fs_makedirs (os_error jpeg_lib) jpeg_fs ''/out/.'' = Inr ((''/out/.'', Dir) # jpeg_fs)"
      by (simp add: fs_makedirs_def jpeg_fs_def)
    show "resolve_conflict jpeg_lib ((''/out/.'', Dir) # jpeg_fs) ''skip''
            (output_filename jpeg_lib ''{Filename}-thumb'' (path_basename jpeg_lib ''/in/a.jpg''))
            (path_join jpeg_lib ''/out/.''
               (output_filename jpeg_lib ''{Filename}-thumb''
                  (path_basename jpeg_lib ''/in/a.jpg'')))
          = Value ''/out/./a-thumb.jpg''"
      by (simp add: jpeg_names sample_names resolve_conflict_def fs_exists_def jpeg_fs_def)
    show "fs_write (os_error jpeg_lib) ((''/out/.'', Dir) # jpeg_fs) ''/out/./a-thumb.jpg'' ?out
          = Inr ((''/out/./a-thumb.jpg'', File ?out) # (''/out/.'', Dir) # jpeg_fs)"
      by (simp add: fs_write_def jpeg_fs_def)
  qed
  then show ?thesis by (simp add: sample_task_def jpeg_names sample_names)
qed


section \<open>The properties\<close>

text \<open>
  C1. For every task, \<open>process_single_file\<close> yields a result whose status is one of
  \<^verbatim>\<open>SUCCESS\<close>, \<^verbatim>\<open>SKIPPED_EXISTS\<close> and \<^verbatim>\<open>FAILURE\<close>, and whenever a step of its
  \<^verbatim>\<open>try\<close> block raises an exception the result is \<^verbatim>\<open>FAILURE\<close> with a message that
  carries the text of the exception. No exception leaves the function: its value is always a
  result and a file system, the rename loop included, which terminates on every file system.
\<close>

theorem process_single_file_total:
  "fst (fst (process_single_file lib fs args)) \<in> {''SUCCESS'', ''SKIPPED_EXISTS'', ''FAILURE''} \<and>
   (\<forall>e fs'. try_body lib fs args (path_basename lib (fst args)) = (Inl e, fs') \<longrightarrow>
      process_single_file lib fs args =
        ((''FAILURE'', msg_failed @ path_basename lib (fst args) @ '' ('' @ exc_str e @ '')''), fs'))"
  using process_single_file_status [of lib fs args]
  by (simp add: process_single_file_def Let_def)

theorem process_single_file_total_witness:
  "try_body sample_lib [(''/in/a.jpg'', File [0, 10, 20, 30])]
     (''/in/a.jpg'', ''/out'', ''{Filename}-thumb'', ''skip'', ''/elsewhere'', False)
     (path_basename sample_lib
        (fst (''/in/a.jpg'', ''/out'', ''{Filename}-thumb'', ''skip'', ''/elsewhere'', False)))
     = (Inl (PyException ''path is on another mount''), [(''/in/a.jpg'', File [0, 10, 20, 30])]) \<and>
   process_single_file sample_lib [(''/in/a.jpg'', File [0, 10, 20, 30])]
     (''/in/a.jpg'', ''/out'', ''{Filename}-thumb'', ''skip'', ''/elsewhere'', False)
     = ((''FAILURE'', msg_failed @ ''a.jpg'' @ '' ('' @ ''path is on another mount'' @ '')''),
        [(''/in/a.jpg'', File [0, 10, 20, 30])])"
proof -
  let ?fs = "[(''/in/a.jpg'', File [0, 10, 20, 30])]"
  let ?t = "(''/in/a.jpg'', ''/out'', ''{Filename}-thumb'', ''skip'', ''/elsewhere'', False)"
  have folder: "output_folder sample_lib ''/in/a.jpg'' ''/out'' ''/elsewhere''
      = Inl (PyException ''path is on another mount'')"
    by (simp add: output_folder_def sample_lib_def sample_dirname_def sample_relpath_def)
  have raised: "try_body sample_lib ?fs ?t (path_basename sample_lib (fst ?t))
      = (Inl (PyException ''path is on another mount''), ?fs)"
    by (simp add: try_body_def fs_read_def sample_build_output folder)
  with process_single_file_total [of sample_lib ?fs ?t] sample_names(1)
  show ?thesis by simp
qed

text \<open>
  C2. When a file is processed successfully, the bytes written are the splice of the new
  EXIF segment into the bytes read from the source: the start-of-image marker, the new EXIF
  segment, and the source without its own EXIF segments. So the non-EXIF portion of the
  written file is byte for byte the non-EXIF portion of the source. The splice is
  \<^verbatim>\<open>piexif.insert\<close> as modelled from the specification.
\<close>

theorem pixel_data_round_trips:
  assumes "process_single_file lib fs args = ((''SUCCESS'', message), fs')"
    and "piexif_insert lib = exif_splice"
  shows "\<exists>original_bytes exif_bytes output_bytes final_path.
           fs_read (os_error lib) fs (fst args) = Inr original_bytes \<and>
           output_bytes = SOI @ exif_segment exif_bytes @ drop 2 (non_exif_portion original_bytes) \<and>
           (\<exists>fs1. fs' = (final_path, File output_bytes) # fs1) \<and>
           non_exif_portion output_bytes = non_exif_portion original_bytes"
proof -
  obtain full_path output_root_folder filename_format conflict_resolution root_folder show_log
    where args: "args = (full_path, output_root_folder, filename_format, conflict_resolution,
                         root_folder, show_log)"
    by (cases args)
  from process_single_file_SUCCESS_D [OF assms(1) [unfolded args]]
  obtain original_bytes output_bytes fs1 final_path where
    r: "fs_read (os_error lib) fs full_path = Inr original_bytes" and
    b: "build_output lib original_bytes (path_basename lib full_path) = Value output_bytes" and
    w: "fs_write (os_error lib) fs1 final_path output_bytes = Inr fs'"
    by blast
  from build_output_Value_D [OF b] obtain exif_bytes where
    i: "exif_splice exif_bytes original_bytes = Inr output_bytes"
    unfolding assms(2) by blast
  have "output_bytes = SOI @ exif_segment exif_bytes @ drop 2 (non_exif_portion original_bytes)"
    using i by (auto simp: exif_splice_def split: if_splits)
  moreover from fs_write_D [OF w] have "\<exists>fs1. fs' = (final_path, File output_bytes) # fs1"
    by simp
  ultimately show ?thesis
    using r exif_splice_preserves [OF i] unfolding args fst_conv by blast
qed

theorem pixel_data_round_trips_witness:
  "process_single_file jpeg_lib jpeg_fs (sample_task ''skip'') =
     ((''SUCCESS'', msg_processed @ ''a.jpg'' @ '' -> '' @ ''a-thumb.jpg''),
      (''/out/./a-thumb.jpg'',
       File [0xFF, 0xD8, 0xFF, 0xE1, 0, 10, 0x45, 0x78, 0x69, 0x66, 0, 0, 0xFF, 0xE1,
             0xFF, 0xDB, 0, 3, 7, 0xFF, 0xDA, 1, 2, 3]) # (''/out/.'', Dir) # jpeg_fs) \<and>
   piexif_insert jpeg_lib = exif_splice \<and>
   fs_read (os_error jpeg_lib) jpeg_fs (fst (sample_task ''skip'')) = Inr jpeg_file \<and>
   non_exif_portion jpeg_file = [0xFF, 0xD8, 0xFF, 0xDB, 0, 3, 7, 0xFF, 0xDA, 1, 2, 3] \<and>
   non_exif_portion [0xFF, 0xD8, 0xFF, 0xE1, 0, 10, 0x45, 0x78, 0x69, 0x66, 0, 0, 0xFF, 0xE1,
                     0xFF, 0xDB, 0, 3, 7, 0xFF, 0xDA, 1, 2, 3]
     = [0xFF, 0xD8, 0xFF, 0xDB, 0, 3, 7, 0xFF, 0xDA, 1, 2, 3]"
proof -
  have splice: "piexif_insert jpeg_lib = exif_splice"
    by (simp add: jpeg_lib_def)
  have read: "fs_read (os_error jpeg_lib) jpeg_fs (fst (sample_task ''skip'')) = Inr jpeg_file"
    by (simp add: fs_read_def jpeg_fs_def sample_task_def)
  from pixel_data_round_trips [OF jpeg_run splice] read jpeg_portions jpeg_output_portion
    jpeg_run splice
  show ?thesis by simp
qed

text \<open>
  C3. The worker asks OpenCV for the size that lines 40 to 43 compute in double precision.
  For a decoded image of 4928 by 3264 that size is 159 by 105, although the scale factor
  \<open>min (160 / 4928) (120 / 3264)\<close> scales the width to exactly 160 and the floors of the
  exactly scaled dimensions are 160 and 105: the product of 4928 and the rounded ratio lies
  just below 160, and \<^verbatim>\<open>int\<close> truncates it to 159.
\<close>

theorem thumbnail_size_misses_target:
  assumes "cv2_imdecode lib original_bytes = Inr (Some img)"
    and "img_width img = 4928" and "img_height img = 3264"
  shows "make_thumbnail lib original_bytes filename =
           (case cv2_resize lib img (159, 105) of
              Inl e \<Rightarrow> Raised e
            | Inr thumb \<Rightarrow>
                (case cv2_imencode lib thumb of
                   Inl e \<Rightarrow> Raised e
                 | Inr (success, thumb_buf) \<Rightarrow>
                     if \<not> success
                     then Returned (''FAILURE'', msg_encode_failed @ filename)
                     else Value thumb_buf)) \<and>
         exact_thumb_size (img_width img) (img_height img) = (160, 105)"
  using assms
  by (simp add: make_thumbnail_def thumb_size_4928_3264 exact_thumb_size_4928_3264)

theorem thumbnail_size_misses_target_witness:
  "cv2_imdecode sample_lib [0, 10, 20, 30]
     = Inr (Some \<lparr>img_height = 3264, img_width = 4928, img_pixels = [10, 20, 30]\<rparr>) \<and>
   make_thumbnail sample_lib [0, 10, 20, 30] ''a.jpg'' =
     (case cv2_resize sample_lib
             \<lparr>img_height = 3264, img_width = 4928, img_pixels = [10, 20, 30]\<rparr> (159, 105) of
        Inl e \<Rightarrow> Raised e
      | Inr thumb \<Rightarrow>
          (case cv2_imencode sample_lib thumb of
             Inl e \<Rightarrow> Raised e
           | Inr (success, thumb_buf) \<Rightarrow>
               if \<not> success
               then Returned (''FAILURE'', msg_encode_failed @ ''a.jpg'')
               else Value thumb_buf)) \<and>
   cv2_resize sample_lib \<lparr>img_height = 3264, img_width = 4928, img_pixels = [10, 20, 30]\<rparr>
       (159, 105)
     = Inr \<lparr>img_height = 105, img_width = 159, img_pixels = [10, 20]\<rparr> \<and>
   exact_thumb_size 4928 3264 = (160, 105)"
proof -
  let ?img = "\<lparr>img_height = 3264, img_width = 4928, img_pixels = [10, 20, 30]\<rparr>"
  have d: "cv2_imdecode sample_lib [0, 10, 20, 30] = Inr (Some ?img)"
    by (simp add: sample_lib_def sample_imdecode_def sample_pixel_data_def)
  have r: "cv2_resize sample_lib ?img (159, 105)
      = Inr \<lparr>img_height = 105, img_width = 159, img_pixels = [10, 20]\<rparr>"
    by (simp add: sample_lib_def sample_resize_def)
  from thumbnail_size_misses_target [OF d, of "''a.jpg''"] d r
  show ?thesis by simp
qed

text \<open>
  C4. When a file is processed successfully, the EXIF container that is serialised into the
  output holds an Orientation tag in its 0th table: the value 0 when \<^verbatim>\<open>piexif.load\<close>
  raised on the source or returned a container without the tag, and the value of the
  container that \<^verbatim>\<open>piexif.load\<close> returned otherwise.
\<close>

theorem orientation_defaulted_or_kept:
  assumes "process_single_file lib fs args = ((''SUCCESS'', message), fs')"
  shows "\<exists>original_bytes thumb_buf exif_bytes output_bytes final_path.
           fs_read (os_error lib) fs (fst args) = Inr original_bytes \<and>
           piexif_dump lib (new_exif lib original_bytes thumb_buf) = Inr exif_bytes \<and>
           piexif_insert lib exif_bytes original_bytes = Inr output_bytes \<and>
           (\<exists>fs1. fs' = (final_path, File output_bytes) # fs1) \<and>
           orientation_of (new_exif lib original_bytes thumb_buf) =
             (case piexif_load lib original_bytes of
                Inl e \<Rightarrow> Some (ExifInt 0)
              | Inr source_exif \<Rightarrow>
                  (case orientation_of source_exif of
                     None \<Rightarrow> Some (ExifInt 0) | Some v \<Rightarrow> Some v))"
proof -
  obtain full_path output_root_folder filename_format conflict_resolution root_folder show_log
    where args: "args = (full_path, output_root_folder, filename_format, conflict_resolution,
                         root_folder, show_log)"
    by (cases args)
  from process_single_file_SUCCESS_D [OF assms [unfolded args]]
  obtain original_bytes output_bytes fs1 final_path where
    r: "fs_read (os_error lib) fs full_path = Inr original_bytes" and
    b: "build_output lib original_bytes (path_basename lib full_path) = Value output_bytes" and
    w: "fs_write (os_error lib) fs1 final_path output_bytes = Inr fs'"
    by blast
  from build_output_Value_D [OF b] obtain thumb_buf exif_bytes where
    d: "piexif_dump lib (new_exif lib original_bytes thumb_buf) = Inr exif_bytes" and
    i: "piexif_insert lib exif_bytes original_bytes = Inr output_bytes"
    by blast
  have o: "orientation_of (new_exif lib original_bytes thumb_buf) =
      (case piexif_load lib original_bytes of
         Inl e \<Rightarrow> Some (ExifInt 0)
       | Inr source_exif \<Rightarrow>
           (case orientation_of source_exif of
              None \<Rightarrow> Some (ExifInt 0) | Some v \<Rightarrow> Some v))"
    using orientation_of_new_exif [of lib original_bytes thumb_buf]
    by (simp add: load_exif_def orientation_of_def empty_exif_def split: sum.splits)
  from fs_write_D [OF w] have "\<exists>fs1. fs' = (final_path, File output_bytes) # fs1" by simp
  with r d i o show ?thesis
    unfolding args fst_conv by blast
qed

theorem orientation_defaulted_or_kept_witness:
  "process_single_file sample_lib sample_fs (sample_task ''skip'') =
     ((''SUCCESS'', msg_processed @ ''a.jpg'' @ '' -> '' @ ''a-thumb.jpg''),
      (''/out/./a-thumb.jpg'', File [2, 10, 20, 10, 20, 30]) # (''/out/.'', Dir) # sample_fs) \<and>
   fs_read (os_error sample_lib) sample_fs (fst (sample_task ''skip'')) = Inr [0, 10, 20, 30] \<and>
   piexif_load sample_lib [0, 10, 20, 30]
     = Inr \<lparr>ifds = [''0th'' \<mapsto> [Orientation \<mapsto> ExifInt 6]], thumbnail = None\<rparr> \<and>
   orientation_of (new_exif sample_lib [0, 10, 20, 30] [10, 20]) = Some (ExifInt 6) \<and>
   piexif_dump sample_lib (new_exif sample_lib [0, 10, 20, 30] [10, 20]) = Inr [10, 20] \<and>
   piexif_insert sample_lib [10, 20] [0, 10, 20, 30] = Inr [2, 10, 20, 10, 20, 30] \<and>
   piexif_load sample_lib [1, 5, 10, 20]
     = Inr \<lparr>ifds = [''0th'' \<mapsto> Map.empty], thumbnail = Some [5]\<rparr> \<and>
   orientation_of (new_exif sample_lib [1, 5, 10, 20] [10, 20]) = Some (ExifInt 0) \<and>
   (\<exists>original_bytes thumb_buf exif_bytes output_bytes final_path.
      fs_read (os_error sample_lib) sample_fs (fst (sample_task ''skip'')) = Inr original_bytes \<and>
      piexif_dump sample_lib (new_exif sample_lib original_bytes thumb_buf) = Inr exif_bytes \<and>
      piexif_insert sample_lib exif_bytes original_bytes = Inr output_bytes \<and>
      (\<exists>fs1. (''/out/./a-thumb.jpg'', File [2, 10, 20, 10, 20, 30]) # (''/out/.'', Dir) # sample_fs
         = (final_path, File output_bytes) # fs1) \<and>
      orientation_of (new_exif sample_lib original_bytes thumb_buf) =
        (case piexif_load sample_lib original_bytes of
           Inl e \<Rightarrow> Some (ExifInt 0)
         | Inr source_exif \<Rightarrow>
             (case orientation_of source_exif of
                None \<Rightarrow> Some (ExifInt 0) | Some v \<Rightarrow> Some v)))"
proof -
  have r: "fs_read (os_error sample_lib) sample_fs (fst (sample_task ''skip'')) = Inr [0, 10, 20, 30]"
    by (simp add: fs_read_def sample_fs_def sample_task_def)
  have l6: "piexif_load sample_lib [0, 10, 20, 30]
      = Inr \<lparr>ifds = [''0th'' \<mapsto> [Orientation \<mapsto> ExifInt 6]], thumbnail = None\<rparr>"
    by (simp add: sample_lib_def sample_load_def)
  have l0: "piexif_load sample_lib [1, 5, 10, 20]
      = Inr \<lparr>ifds = [''0th'' \<mapsto> Map.empty], thumbnail = Some [5]\<rparr>"
    by (simp add: sample_lib_def sample_load_def)
  have "orientation_of (load_exif sample_lib [0, 10, 20, 30]) = Some (ExifInt 6)"
    by (simp add: load_exif_def l6 orientation_of_def)
  then have o6: "orientation_of (new_exif sample_lib [0, 10, 20, 30] [10, 20]) = Some (ExifInt 6)"
    by (simp only: orientation_of_new_exif option.case)
  have "orientation_of (load_exif sample_lib [1, 5, 10, 20]) = None"
    by (simp add: load_exif_def l0 orientation_of_def)
  then have o0: "orientation_of (new_exif sample_lib [1, 5, 10, 20] [10, 20]) = Some (ExifInt 0)"
    by (simp only: orientation_of_new_exif option.case)
  have d: "piexif_dump sample_lib (new_exif sample_lib [0, 10, 20, 30] [10, 20]) = Inr [10, 20]"
    by (simp add: new_exif_def attach_thumbnail_def) (simp add: sample_lib_def sample_dump_def)
  have i: "piexif_insert sample_lib [10, 20] [0, 10, 20, 30] = Inr [2, 10, 20, 10, 20, 30]"
    by (simp add: sample_lib_def sample_insert_def sample_pixel_data_def)
  from orientation_defaulted_or_kept [OF sample_run [of "''skip''"]] sample_run [of "''skip''"]
    r l6 l0 o6 o0 d i
  show ?thesis by simp
qed





text \<open>
  C7. The scan enqueues, in the order of the walk, a task for exactly the files whose name
  ends in \<^verbatim>\<open>.jpg\<close> or \<^verbatim>\<open>.jpeg\<close> in any letter case and that do not have a
  thumbnail (reading or parsing fails, or the parsed container has none); the files so named
  that parse with a thumbnail are counted as skipped and not enqueued.
\<close>

theorem scan_enqueues_jpegs_without_thumbnail:
  "scan lib fs input_path output_path filename_format conflict_resolution show_log =
     (map (\<lambda>(current_folder, filename).
             (path_join lib current_folder filename, output_path, filename_format,
              conflict_resolution, input_path, show_log))
        (filter (\<lambda>(current_folder, filename). is_jpeg_name filename \<and>
                   \<not> has_thumbnail lib fs (path_join lib current_folder filename))
           (walk_files lib fs input_path)),
      length (filter (\<lambda>(current_folder, filename). is_jpeg_name filename \<and>
                        has_thumbnail lib fs (path_join lib current_folder filename))
                (walk_files lib fs input_path)))"
  by (simp add: scan_def walk_files_def fold_scan_walk)

theorem scan_enqueues_jpegs_without_thumbnail_witness:
  "scan sample_lib sample_tree ''/in'' ''/out'' ''{Filename}-thumb'' ''skip'' False =
     ([(''/in/a.jpg'', ''/out'', ''{Filename}-thumb'', ''skip'', ''/in'', False),
       (''/in/d.jpeg'', ''/out'', ''{Filename}-thumb'', ''skip'', ''/in'', False)], 1)"
proof -
  have j: "path_join sample_lib ''/in'' f = ''/in/'' @ f" for f
    by (simp add: sample_lib_def sample_join_def)
  show ?thesis
    using scan_enqueues_jpegs_without_thumbnail
      [of sample_lib sample_tree "''/in''" "''/out''" "''{Filename}-thumb''" "''skip''" False]
    by (simp add: sample_tree_walk is_jpeg_name_samples j sample_tree_thumbnails)
qed






text \<open>
  C10. Every result of the worker has one of the three statuses, so after
  \<open>process_results\<close> has consumed the results of a batch, in whatever order they arrive,
  the three counters are the same and add up to the number of tasks dispatched.
\<close>

theorem counters_account_for_every_task:
  assumes "run_tasks lib fs tasks = (results, fs')" and "mset arrived = mset results"
  shows "(\<forall>r \<in> set arrived. fst r \<in> {''SUCCESS'', ''SKIPPED_EXISTS'', ''FAILURE''}) \<and>
         fst (process_results show_log arrived skipped_thumb_count duration_text)
           = fst (process_results show_log results skipped_thumb_count duration_text) \<and>
         processed_count (fst (process_results show_log arrived skipped_thumb_count duration_text))
           + skipped_exists_count
               (fst (process_results show_log arrived skipped_thumb_count duration_text))
           + failed_count (fst (process_results show_log arrived skipped_thumb_count duration_text))
           = length tasks"
proof -
  have st: "\<forall>r \<in> set arrived. fst r \<in> {''SUCCESS'', ''SKIPPED_EXISTS'', ''FAILURE''}"
    using run_tasks_status [OF assms(1)] mset_eq_setD [OF assms(2)] by simp
  have len: "length arrived = length tasks"
    using run_tasks_length [OF assms(1)] mset_eq_length [OF assms(2)] by simp
  have eq: "fst (process_results show_log arrived skipped_thumb_count duration_text)
      = fst (process_results show_log results skipped_thumb_count duration_text)"
    by (simp only: process_results_counts count_status_mset [OF assms(2)])
  have "processed_count (fst (process_results show_log arrived skipped_thumb_count duration_text))
      + skipped_exists_count
          (fst (process_results show_log arrived skipped_thumb_count duration_text))
      + failed_count (fst (process_results show_log arrived skipped_thumb_count duration_text))
      = length arrived"
    using count_status_total [OF st] by (simp add: process_results_counts)
  with st eq len show ?thesis by simp
qed

theorem counters_account_for_every_task_witness:
  "run_tasks sample_lib sample_fs [sample_task ''skip'', sample_task ''skip''] =
     ([(''SUCCESS'', msg_processed @ ''a.jpg'' @ '' -> '' @ ''a-thumb.jpg''),
       (''SKIPPED_EXISTS'', msg_skipped_exists @ ''a-thumb.jpg'')],
      (''/out/./a-thumb.jpg'', File [2, 10, 20, 10, 20, 30]) # (''/out/.'', Dir) # sample_fs) \<and>
   mset [(''SKIPPED_EXISTS'', msg_skipped_exists @ ''a-thumb.jpg''),
         (''SUCCESS'', msg_processed @ ''a.jpg'' @ '' -> '' @ ''a-thumb.jpg'')]
     = mset [(''SUCCESS'', msg_processed @ ''a.jpg'' @ '' -> '' @ ''a-thumb.jpg''),
             (''SKIPPED_EXISTS'', msg_skipped_exists @ ''a-thumb.jpg'')] \<and>
   processed_count (fst (process_results False
       [(''SKIPPED_EXISTS'', msg_skipped_exists @ ''a-thumb.jpg''),
        (''SUCCESS'', msg_processed @ ''a.jpg'' @ '' -> '' @ ''a-thumb.jpg'')] 0 ''0.100''))
   + skipped_exists_count (fst (process_results False
       [(''SKIPPED_EXISTS'', msg_skipped_exists @ ''a-thumb.jpg''),
        (''SUCCESS'', msg_processed @ ''a.jpg'' @ '' -> '' @ ''a-thumb.jpg'')] 0 ''0.100''))
   + failed_count (fst (process_results False
       [(''SKIPPED_EXISTS'', msg_skipped_exists @ ''a-thumb.jpg''),
        (''SUCCESS'', msg_processed @ ''a.jpg'' @ '' -> '' @ ''a-thumb.jpg'')] 0 ''0.100''))
   = length [sample_task ''skip'', sample_task ''skip'']"
proof -
  let ?fs1 = "(''/out/./a-thumb.jpg'', File [2, 10, 20, 10, 20, 30]) # (''/out/.'', Dir) # sample_fs"
  have second: "process_single_file sample_lib ?fs1 (sample_task ''skip'') =
      ((''SKIPPED_EXISTS'', msg_skipped_exists @ ''a-thumb.jpg''), ?fs1)"
    by (simp add: process_single_file_def try_body_def sample_task_def sample_names
        fs_read_def sample_fs_def sample_build_output fs_makedirs_def resolve_conflict_def
        fs_exists_def Let_def)
  have run: "run_tasks sample_lib sample_fs [sample_task ''skip'', sample_task ''skip''] =
      ([(''SUCCESS'', msg_processed @ ''a.jpg'' @ '' -> '' @ ''a-thumb.jpg''),
        (''SKIPPED_EXISTS'', msg_skipped_exists @ ''a-thumb.jpg'')], ?fs1)"
    by (simp add: sample_run second)
  have perm: "mset [(''SKIPPED_EXISTS'', msg_skipped_exists @ ''a-thumb.jpg''),
                    (''SUCCESS'', msg_processed @ ''a.jpg'' @ '' -> '' @ ''a-thumb.jpg'')]
     = mset [(''SUCCESS'', msg_processed @ ''a.jpg'' @ '' -> '' @ ''a-thumb.jpg''),
             (''SKIPPED_EXISTS'', msg_skipped_exists @ ''a-thumb.jpg'')]"
    by simp
  from counters_account_for_every_task [OF run perm, of False 0 "''0.100''"] run perm
  show ?thesis by blast
qed

end
